theory Spec2Isabelle
  imports Complex_Main "HOL-Library.Word" "HOL-Library.Multiset"
begin

section \<open>Machine integers and helpers (util.go)\<close>

text \<open>
  Go's \<^verbatim>\<open>uint64\<close> is a 64-bit word: \<open>+\<close> and \<open>-\<close> wrap around. A
  \<^verbatim>\<open>time.Duration\<close> is an \<^verbatim>\<open>int64\<close> count of nanoseconds, read with \<open>sint\<close>.
\<close>

type_synonym u64 = "64 word"
type_synonym duration = "64 word"

text \<open>\<^verbatim>\<open>func min(a, b uint64) uint64\<close> and \<^verbatim>\<open>func max(a, b uint64) uint64\<close>.\<close>

definition min_u64 :: "u64 \<Rightarrow> u64 \<Rightarrow> u64" where
  "min_u64 a b = (if a \<le> b then a else b)"

definition max_u64 :: "u64 \<Rightarrow> u64 \<Rightarrow> u64" where
  "max_u64 a b = (if a \<ge> b then a else b)"

text \<open>
  \<^verbatim>\<open>maxFailureScale = 12\<close>, \<^verbatim>\<open>failureWait = 10 * time.Millisecond\<close> (in nanoseconds).
\<close>

definition maxFailureScale :: u64 where
  "maxFailureScale = 12"

definition failureWait :: duration where
  "failureWait = 10000000"

text \<open>
  The loop of \<^verbatim>\<open>backOff\<close>: \<^verbatim>\<open>for power > 2 { base *= 2; power-- }\<close>.
\<close>

function backOff_loop :: "duration \<Rightarrow> u64 \<Rightarrow> duration" where
  "backOff_loop base pw =
     (if pw > 2 then backOff_loop (base * 2) (pw - 1) else base)"
  by pat_completeness auto
termination
proof (relation "measure (\<lambda>(base, pw). unat pw)")
  show "wf (measure (\<lambda>(base :: duration, pw :: u64). unat pw))"
    by simp
next
  fix base :: duration and pw :: u64
  assume "2 < pw"
  then have "unat (pw - 1) < unat pw"
    using word_less_iff_unsigned word_order.not_eq_extremum word_sub_less_iff
    by force
  then show "((base * 2, pw - 1), (base, pw)) \<in> measure (\<lambda>(base, pw). unat pw)"
    by simp
qed

declare backOff_loop.simps [simp del]

definition backOff :: "u64 \<Rightarrow> duration" where
  "backOff rnd = backOff_loop failureWait (min_u64 rnd maxFailureScale)"

text \<open>
  The retry delay as the specification words it, \<open>10 ms \<times> 2^(min(round-2, 10))\<close>, in
  nanoseconds: once read over the integers (the exponent may be negative), once read in
  \<^verbatim>\<open>uint64\<close> arithmetic (the subtraction wraps).
\<close>

definition spec_backOff :: "int \<Rightarrow> real" where
  "spec_backOff r = 10000000 * 2 powi (min (r - 2) 10)"

definition spec_backOff_u64 :: "u64 \<Rightarrow> int" where
  "spec_backOff_u64 r = 10000000 * 2 ^ unat (min_u64 (r - 2) 10)"

section \<open>Errors\<close>

text \<open>
  An error made by \<^verbatim>\<open>errors.New\<close> or by \<^verbatim>\<open>fmt.Errorf\<close> on strings carries its
  message; \<open>Errorf prefix err\<close> is \<^verbatim>\<open>fmt.Errorf(prefix + "%v", err)\<close>; the package's error
  values and error types are constructors of their own. A panic (a failed
  \<^verbatim>\<open>assert\<close>, a \<^verbatim>\<open>panic\<close> call, a nil dereference, an index out of range) ends the
  call without a state: it is the \<open>Inl\<close> of a result.
\<close>

datatype error =
    ErrorString string
  | Errorf string error
  | ErrConfigChangeInProgress
  | ErrNotCommitReady
  | ErrConfigChanged
  | ErrServerClosed
  | ErrQuorumUnreachable
  | InProgressError string
  | StorageError string

datatype panic = Panic string

section \<open>Configuration (config.go)\<close>

text \<open>
  A node id is a string in config.go (\<^verbatim>\<open>type ID string\<close>) and a \<^verbatim>\<open>uint64\<close> in ldr.go;
  ids are only compared, so one type stands for both, and \<open>noID\<close> is its zero value
  (\<^verbatim>\<open>""\<close> there, \<^verbatim>\<open>0\<close> here).
\<close>

type_synonym ID = string

definition noID :: ID where
  "noID = []"

record Node =
  ID :: ID
  Addr :: string
  Voter :: bool
  Promote :: bool

text \<open>
  \<^verbatim>\<open>Nodes map[ID]Node\<close> is an association list: its order is the order in which one
  \<^verbatim>\<open>range\<close> over the map visits the nodes, which Go leaves unspecified, so every theorem
  holds for every order. The keys of a map are distinct.
\<close>

record Config =
  Nodes :: "(ID \<times> Node) list"
  Index :: u64
  Term :: u64

record Configs =
  Committed :: Config
  Latest :: Config

text \<open>
  \<^verbatim>\<open>net.SplitHostPort\<close> and \<^verbatim>\<open>strconv.Atoi\<close> belong to Go's library, not to this
  repository: \<^verbatim>\<open>Node.validate\<close> takes them as parameters (\<open>Inl\<close> is the library's error
  message).
\<close>

type_synonym splitHostPort = "string \<Rightarrow> string + (string \<times> string)"
type_synonym atoi = "string \<Rightarrow> string + int"

definition Node_validate :: "splitHostPort \<Rightarrow> atoi \<Rightarrow> Node \<Rightarrow> error option" where
  "Node_validate shp atoi n =
     (if ID n = [] then Some (ErrorString ''empty node id'')
      else if Addr n = [] then Some (ErrorString ''empty address'')
      else case shp (Addr n) of
        Inl err \<Rightarrow> Some (ErrorString (''invalid address '' @ Addr n @ '': '' @ err))
      | Inr (host, sport) \<Rightarrow>
          (case atoi sport of
             Inl err \<Rightarrow> Some (ErrorString ''port must be specified in address'')
           | Inr port \<Rightarrow>
               if port \<le> 0 then Some (ErrorString ''invalid port'') else None))"

definition isVoter :: "Config \<Rightarrow> ID \<Rightarrow> bool" where
  "isVoter c i = (case map_of (Nodes c) i of None \<Rightarrow> False | Some node \<Rightarrow> Voter node)"

text \<open>\<^verbatim>\<open>numVoters\<close> counts in a Go \<^verbatim>\<open>int\<close>; the count is at most the number of nodes.\<close>

fun count_voters :: "(ID \<times> Node) list \<Rightarrow> nat \<Rightarrow> nat" where
  "count_voters [] voters = voters"
| "count_voters ((i, node) # rest) voters =
     count_voters rest (if Voter node then voters + 1 else voters)"

definition numVoters :: "Config \<Rightarrow> nat" where
  "numVoters c = count_voters (Nodes c) 0"

definition quorum :: "Config \<Rightarrow> nat" where
  "quorum c = numVoters c div 2 + 1"

text \<open>
  The loop of \<^verbatim>\<open>Config.validate\<close> over the nodes, with the addresses seen so far
  (\<^verbatim>\<open>addrs map[string]bool\<close>).
\<close>

fun validate_nodes ::
  "splitHostPort \<Rightarrow> atoi \<Rightarrow> (ID \<times> Node) list \<Rightarrow> string set \<Rightarrow> error option" where
  "validate_nodes shp atoi [] addrs = None"
| "validate_nodes shp atoi ((i, node) # rest) addrs =
     (case Node_validate shp atoi node of
        Some err \<Rightarrow> Some err
      | None \<Rightarrow>
          if i \<noteq> ID node then Some (ErrorString (''id mismatch for '' @ ID node))
          else if Addr node \<in> addrs
            then Some (ErrorString (''duplicate address '' @ Addr node))
          else validate_nodes shp atoi rest (insert (Addr node) addrs))"

definition Config_validate :: "splitHostPort \<Rightarrow> atoi \<Rightarrow> Config \<Rightarrow> error option" where
  "Config_validate shp atoi c =
     (case validate_nodes shp atoi (Nodes c) {} of
        Some err \<Rightarrow> Some err
      | None \<Rightarrow>
          if numVoters c = 1 then Some (ErrorString ''zero voters'') else None)"

definition IsBootstrap :: "Configs \<Rightarrow> bool" where
  "IsBootstrap c = (Index (Latest c) = 0)"

definition IsCommitted :: "Configs \<Rightarrow> bool" where
  "IsCommitted c = (Index (Latest c) = Index (Committed c))"

section \<open>Log entries\<close>

datatype entryType = entryNop | entryUpdate | entryRead | entryBarrier | entryConfig


text \<open>
  The data of an entry is opaque but for a configuration entry, whose data is what
  \<^verbatim>\<open>Config.encode\<close> wrote from the nodes; the byte-level helpers of encode and decode are
  not part of the sources, so the encoded nodes stand for their bytes.
\<close>

datatype entryData = Bytes "8 word list" | EncodedNodes "(ID \<times> Node) list"

record entry =
  index :: u64
  e_term :: u64
  e_typ :: entryType
  data :: entryData

section \<open>The storage facade (storage.go)\<close>

text \<open>
  \<^verbatim>\<open>first\<close> and \<^verbatim>\<open>last\<close> are the indices of the first and last stored entry, zero for
  no entries. The \<^verbatim>\<open>Log\<close> behind the facade is an interface: it is modelled by the list
  of the entries it holds (stored encoded, read back decoded) and a flag \<open>log_failing\<close>;
  a call of the Log returns an error when the flag is set (an I/O error) or when it asks
  for entries the Log does not hold.
\<close>

record storage =
  s_first :: u64
  s_last :: u64
  s_log :: "entry list"
  log_failing :: bool

definition getLast :: "storage \<Rightarrow> u64" where
  "getLast s = s_last s"

definition storage_count :: "storage \<Rightarrow> u64" where
  "storage_count s = (if s_first s = 0 then 0 else s_last s - s_first s + 1)"

definition log_Get :: "storage \<Rightarrow> u64 \<Rightarrow> entry option" where
  "log_Get s off =
     (if log_failing s \<or> \<not> unat off < length (s_log s) then None
      else Some (s_log s ! unat off))"

definition getEntry :: "storage \<Rightarrow> u64 \<Rightarrow> panic + entry" where
  "getEntry s i =
     (case log_Get s (i - s_first s) of
        None \<Rightarrow> Inl (Panic ''failed to get entry'')
      | Some e \<Rightarrow> Inr e)"

definition lastEntry :: "storage \<Rightarrow> error + entry option" where
  "lastEntry s =
     (if storage_count s = 0 then Inr None
      else if log_failing s \<or> s_log s = [] then Inl (StorageError ''log.Last'')
      else Inr (Some (List.last (s_log s))))"

text \<open>
  \<^verbatim>\<open>init\<close> returns an error, if any, and leaves the facade as it was unless the Log
  holds entries.
\<close>

definition storage_init :: "storage \<Rightarrow> error option \<times> storage" where
  "storage_init s =
     (if log_failing s then (Some (StorageError ''log.Empty''), s)
      else if s_log s = [] then (None, s)
      else (None, s\<lparr>s_first := index (hd (s_log s)), s_last := index (List.last (s_log s))\<rparr>))"

definition storage_append :: "storage \<Rightarrow> entry \<Rightarrow> panic + storage" where
  "storage_append s e =
     (if log_failing s then Inl (Panic ''failed to append entry'')
      else Inr (s\<lparr>s_log := s_log s @ [e],
                  s_first := (if s_first s = 0 then index e else s_first s),
                  s_last := index e\<rparr>))"

definition deleteLTE :: "storage \<Rightarrow> u64 \<Rightarrow> panic + storage" where
  "deleteLTE s i =
     (if storage_count s = 0 then Inl (Panic ''[BUG] deleteLTE on empty log'')
      else let n = i - s_first s + 1 in
        if n > storage_count s then Inl (Panic ''[BUG] deleteLTE: not enough entries'')
        else if log_failing s \<or> unat n > length (s_log s)
          then Inl (Panic ''deleteFirst failed'')
        else Inr (if i = s_last s
                  then s\<lparr>s_log := drop (unat n) (s_log s), s_first := 0, s_last := 0\<rparr>
                  else s\<lparr>s_log := drop (unat n) (s_log s), s_first := i + 1\<rparr>))"

definition deleteGTE :: "storage \<Rightarrow> u64 \<Rightarrow> panic + storage" where
  "deleteGTE s i =
     (if storage_count s = 0 then Inl (Panic ''[BUG] deleteGTE on empty log'')
      else let n = s_last s - i + 1 in
        if n > storage_count s then Inl (Panic ''[BUG] deleteGTE: not enough entries'')
        else if log_failing s \<or> unat n > length (s_log s)
          then Inl (Panic ''deleteLast failed'')
        else Inr (if i = s_first s
                  then s\<lparr>s_log := take (length (s_log s) - unat n) (s_log s),
                         s_first := 0, s_last := 0\<rparr>
                  else s\<lparr>s_log := take (length (s_log s) - unat n) (s_log s),
                         s_last := i - 1\<rparr>))"

text \<open>
  The invariant of the facade as the specification states it, and the well-formedness
  that every operation keeps: no entries, or \<open>1 \<le> first \<le> last\<close>.
\<close>

definition first_last_inv :: "storage \<Rightarrow> bool" where
  "first_last_inv s = ((s_first s = 0) = (s_last s = 0))"

definition storage_ok :: "storage \<Rightarrow> bool" where
  "storage_ok s = (if s_first s = 0 then s_last s = 0 else s_first s \<le> s_last s)"

text \<open>
  Two facades to run the operations on: an empty one, and one holding the entries 3, 4
  and 5.
\<close>

definition entry_at :: "u64 \<Rightarrow> entry" where
  "entry_at i = \<lparr>index = i, e_term = 1, e_typ = entryUpdate, data = Bytes []\<rparr>"

definition storage_empty :: storage where
  "storage_empty = \<lparr>s_first = 0, s_last = 0, s_log = [], log_failing = False\<rparr>"

definition storage_345 :: storage where
  "storage_345 = \<lparr>s_first = 3, s_last = 5,
     s_log = [entry_at 3, entry_at 4, entry_at 5], log_failing = False\<rparr>"

section \<open>Filling a request (storage.go) and the catch-up loop of replicate (member.go)\<close>

record appendEntriesRequest =
  req_term :: u64
  req_leaderID :: ID
  prevLogIndex :: u64
  prevLogTerm :: u64
  entries :: "entry list"
  leaderCommitIndex :: u64

record appendEntriesResponse =
  resp_term :: u64
  success :: bool
  resp_lastLogIndex :: u64

text \<open>The loop of \<^verbatim>\<open>fillEntries\<close> over the positions of \<^verbatim>\<open>req.entries\<close>.\<close>

fun fill_loop :: "storage \<Rightarrow> u64 \<Rightarrow> nat list \<Rightarrow> panic + entry list" where
  "fill_loop s minIndex [] = Inr []"
| "fill_loop s minIndex (i # rest) =
     (case getEntry s (minIndex + of_nat i) of
        Inl p \<Rightarrow> Inl p
      | Inr e \<Rightarrow>
          (case fill_loop s minIndex rest of
             Inl p \<Rightarrow> Inl p
           | Inr es \<Rightarrow> Inr (e # es)))"

text \<open>
  \<^verbatim>\<open>fillEntries(req, minIndex, maxIndex)\<close>: the entry before \<open>minIndex\<close> gives
  \<open>prevLogIndex\<close> and \<open>prevLogTerm\<close>; \<open>maxIndex - minIndex + 1\<close> entries follow, computed in
  \<^verbatim>\<open>uint64\<close>.
\<close>

definition fillEntries ::
  "storage \<Rightarrow> appendEntriesRequest \<Rightarrow> u64 \<Rightarrow> u64 \<Rightarrow> panic + appendEntriesRequest" where
  "fillEntries s req minIndex maxIndex =
     (case (if minIndex = 1 then Inr (req\<lparr>prevLogIndex := 0, prevLogTerm := 0\<rparr>)
            else case getEntry s (minIndex - 1) of
                   Inl p \<Rightarrow> Inl p
                 | Inr prevEntry \<Rightarrow>
                     Inr (req\<lparr>prevLogIndex := index prevEntry,
                              prevLogTerm := e_term prevEntry\<rparr>)) of
        Inl p \<Rightarrow> Inl p
      | Inr req1 \<Rightarrow>
          (case fill_loop s minIndex [0 ..< unat (maxIndex - minIndex + 1)] of
             Inl p \<Rightarrow> Inl p
           | Inr es \<Rightarrow> Inr (req1\<lparr>entries := es\<rparr>)))"

text \<open>
  What one call of \<^verbatim>\<open>retryAppendEntries\<close> meets: the stop signal while it backs off
  after failed calls, or at last a response of the follower.
\<close>

datatype rpc_outcome = StopSignal | Replied appendEntriesResponse

text \<open>
  \<^verbatim>\<open>retryAppendEntries\<close> returns the response and whether to stop; a response with a
  higher term is reported on \<^verbatim>\<open>newTermCh\<close> and stops the replication.
\<close>

definition retryAppendEntries ::
  "appendEntriesRequest \<Rightarrow> rpc_outcome \<Rightarrow> appendEntriesResponse option \<times> bool" where
  "retryAppendEntries req out =
     (case out of
        StopSignal \<Rightarrow> (None, True)
      | Replied resp \<Rightarrow>
          if resp_term resp > req_term req then (Some resp, True) else (Some resp, False))"

text \<open>
  The state of \<^verbatim>\<open>replicate\<close>: the member's \<open>nextIndex\<close>, its shared \<open>matchIndex\<close>
  (read by the leader), the local variable \<open>matchIndex\<close>, the request being reused, and
  the requests sent so far.
\<close>

record replication =
  nextIndex :: u64
  m_matchIndex :: u64
  matchIndex :: u64
  req :: appendEntriesRequest
  sent :: "appendEntriesRequest list"

text \<open>
  What one pass of the loop meets: the outcome of its call of \<^verbatim>\<open>retryAppendEntries\<close>,
  and whether \<^verbatim>\<open>stopCh\<close> is closed at the \<^verbatim>\<open>select\<close> that ends the pass.
\<close>

record pass_env =
  rpc :: rpc_outcome
  stop_closed :: bool

datatype catchup_result =
    Panicked panic
  | Returned replication
  | CaughtUp replication
  | Again replication

text \<open>
  One pass of \<^verbatim>\<open>for matchIndex+1 != m.nextIndex { ... }\<close>: \<open>Returned\<close> is the
  \<^verbatim>\<open>return\<close> on a stop, \<open>CaughtUp\<close> the \<^verbatim>\<open>break\<close> on success, \<open>Again\<close> the end of the
  body.
\<close>

definition catchup_pass :: "storage \<Rightarrow> replication \<Rightarrow> pass_env \<Rightarrow> catchup_result" where
  "catchup_pass s m env =
     (case fillEntries s (req m) (nextIndex m) (nextIndex m - 1) of
        Inl p \<Rightarrow> Panicked p
      | Inr rq \<Rightarrow>
          let m1 = m\<lparr>req := rq, sent := sent m @ [rq]\<rparr> in
          (case retryAppendEntries rq (rpc env) of
             (r, True) \<Rightarrow> Returned m1
           | (None, False) \<Rightarrow> Returned m1
           | (Some resp, False) \<Rightarrow>
               if success resp
               then CaughtUp (m1\<lparr>matchIndex := prevLogIndex rq,
                                  m_matchIndex := prevLogIndex rq\<rparr>)
               else
                 let m2 = m1\<lparr>nextIndex :=
                            max_u64 (min_u64 (nextIndex m1 - 1) (resp_lastLogIndex resp + 1)) 1\<rparr>
                 in if stop_closed env then Returned m2 else Again m2))"

text \<open>
  The loop, run against the passes the environment offers; when they are used up the
  worker is still waiting for a response (\<open>Again\<close>).
\<close>

fun catchup :: "storage \<Rightarrow> replication \<Rightarrow> pass_env list \<Rightarrow> catchup_result" where
  "catchup s m [] = (if matchIndex m + 1 \<noteq> nextIndex m then Again m else CaughtUp m)"
| "catchup s m (env # envs) =
     (if matchIndex m + 1 \<noteq> nextIndex m
      then (case catchup_pass s m env of
              Again m1 \<Rightarrow> catchup s m1 envs
            | r \<Rightarrow> r)
      else CaughtUp m)"




section \<open>The leader (ldr.go)\<close>

datatype State = Follower | Candidate | Leader

text \<open>A \<^verbatim>\<open>NewEntry\<close> is an entry with the task to reply to, if any.\<close>

record NewEntry = entry +
  task :: "nat option"

text \<open>What the leader posts to a replication worker on \<^verbatim>\<open>fromLeaderCh\<close>.\<close>

record leaderUpdate =
  u_lastIndex :: u64
  u_commitIndex :: u64
  u_config :: "Config option"

text \<open>
  A follower as the leader sees it: \<^verbatim>\<open>status.matchIndex\<close>, \<^verbatim>\<open>status.noContact\<close> (the time
  since when it cannot be reached, in nanoseconds; \<open>None\<close> is the zero time) and the
  one-place channel \<^verbatim>\<open>fromLeaderCh\<close>.
\<close>

record flr =
  status_matchIndex :: u64
  status_noContact :: "int option"
  fromLeaderCh :: "leaderUpdate option"

text \<open>
  \<^verbatim>\<open>ldrShip\<close> with the fields of the \<^verbatim>\<open>Raft\<close> it embeds. \<open>fsm_taskCh\<close> collects what was
  sent on \<^verbatim>\<open>l.fsm.taskCh\<close> (\<^verbatim>\<open>r.fsmApplyCh\<close> in fsm.go) and \<open>replies\<close> what was replied to
  tasks (\<open>None\<close> is \<^verbatim>\<open>reply(nil)\<close>), both in order; \<open>stored_configs\<close> is what
  \<^verbatim>\<open>storage.setConfigs\<close> last stored.
  \<open>close_sel\<close> says, for each coming \<^verbatim>\<open>select\<close> between \<^verbatim>\<open><-l.close\<close> and a send to the
  state machine, whether the closed branch is taken; when it is used up the server is
  not closing.
\<close>

record ldrShip =
  self_id :: ID
  cur_term :: u64
  state :: State
  leader :: ID
  lastLogIndex :: u64
  lastLogTerm :: u64
  commitIndex :: u64
  lastApplied :: u64
  configs :: Configs
  storage :: storage
  stored_configs :: "Configs option"
  appendErr :: "error option"
  fsm_taskCh :: "NewEntry list"
  replies :: "(NewEntry \<times> error option) list"
  close_sel :: "bool list"
  timer_active :: bool
  quorumWait :: duration
  voter :: bool
  startIndex :: u64
  newEntries :: "NewEntry list"
  flrs :: "ID \<rightharpoonup> flr"
  transfer_inProgress :: bool

subsection \<open>Parts of the repository that the sources do not hold\<close>

text \<open>
  Modelled from the spec: \<^verbatim>\<open>Raft.setState\<close> and \<^verbatim>\<open>Raft.setLeader\<close> (absent from the
  sources) assign the role state and the leader id ("step down to Follower with
  \<open>leaderId = \<emptyset>\<close>").
\<close>

definition setState :: "State \<Rightarrow> ldrShip \<Rightarrow> ldrShip" where
  "setState st l = l\<lparr>state := st\<rparr>"

definition setLeader :: "ID \<Rightarrow> ldrShip \<Rightarrow> ldrShip" where
  "setLeader i l = l\<lparr>leader := i\<rparr>"

text \<open>
  Modelled from the spec: \<^verbatim>\<open>storage.appendEntry\<close> of ldr.go's time (absent from the
  sources) persists the entry as the last one of the log ("assign \<open>index = lastLogIndex+1\<close>,
  \<open>term = currentTerm\<close>; persist via C1"), so that it becomes \<open>lastLogIndex\<close> and
  \<open>lastLogTerm\<close>, or returns the error of the Log and stores nothing.
\<close>

definition appendEntry :: "ldrShip \<Rightarrow> entry \<Rightarrow> error + ldrShip" where
  "appendEntry l e =
     (case storage_append (storage l) e of
        Inl p \<Rightarrow> Inl (StorageError ''failed to append entry'')
      | Inr s \<Rightarrow> Inr (l\<lparr>storage := s, lastLogIndex := index e, lastLogTerm := e_term e\<rparr>))"

text \<open>
  Modelled from the spec: \<^verbatim>\<open>applyEntry\<close> (absent from the sources) delivers a command,
  a read or a barrier to the user state machine; a configuration entry is handled inline
  and not forwarded, and a no-op is nothing to apply.
\<close>

definition applyEntry :: "NewEntry \<Rightarrow> ldrShip \<Rightarrow> ldrShip" where
  "applyEntry ne l =
     (if e_typ ne = entryUpdate \<or> e_typ ne = entryRead \<or> e_typ ne = entryBarrier
      then l\<lparr>fsm_taskCh := fsm_taskCh l @ [ne]\<rparr>
      else l)"

subsection \<open>Encoding a configuration (config.go)\<close>

definition Config_encode :: "Config \<Rightarrow> entry" where
  "Config_encode c =
     \<lparr>index = Index c, e_term = Term c, e_typ = entryConfig, data = EncodedNodes (Nodes c)\<rparr>"

definition Config_decode :: "'a entry_scheme \<Rightarrow> error + Config" where
  "Config_decode e =
     (if e_typ e \<noteq> entryConfig
      then Inl (ErrorString ''raft: expected entryConfig in Config.decode'')
      else case data e of
        Bytes bs \<Rightarrow> Inl (ErrorString ''decode'')
      | EncodedNodes ns \<Rightarrow> Inr \<lparr>Nodes = ns, Index = index e, Term = e_term e\<rparr>)"

subsection \<open>Committing a configuration (config.go)\<close>

definition commitConfig :: "ldrShip \<Rightarrow> ldrShip" where
  "commitConfig r = r\<lparr>configs := (configs r)\<lparr>Committed := Latest (configs r)\<rparr>\<rparr>"

definition setLatest :: "Config \<Rightarrow> ldrShip \<Rightarrow> ldrShip" where
  "setLatest c r = r\<lparr>configs := (configs r)\<lparr>Latest := c\<rparr>\<rparr>"

definition Raft_changeConfig :: "Config \<Rightarrow> ldrShip \<Rightarrow> ldrShip" where
  "Raft_changeConfig new r =
     setLatest new (r\<lparr>configs := (configs r)\<lparr>Committed := Latest (configs r)\<rparr>\<rparr>)"

definition revertConfig :: "ldrShip \<Rightarrow> ldrShip" where
  "revertConfig r = setLatest (Committed (configs r)) r"

definition setCommitIndex :: "u64 \<Rightarrow> ldrShip \<Rightarrow> ldrShip" where
  "setCommitIndex i r =
     (let r1 = r\<lparr>commitIndex := i\<rparr> in
      if \<not> IsCommitted (configs r1) \<and> Index (Latest (configs r1)) \<le> commitIndex r1
      then let r2 = commitConfig r1 in
        if state r2 = Leader \<and> \<not> isVoter (Latest (configs r2)) (self_id r2)
        then r2\<lparr>state := Follower, leader := noID\<rparr>
        else r2
      else r1)"

subsection \<open>The majority match index\<close>

text \<open>
  The loop of \<^verbatim>\<open>majorityMatchIndex\<close> over the nodes: \<open>acc\<close> is \<^verbatim>\<open>matched[:i]\<close>. Reading
  \<^verbatim>\<open>l.flrs[n.ID].status\<close> of a node without a replication dereferences nil.
\<close>

fun collect_matched :: "ldrShip \<Rightarrow> (ID \<times> Node) list \<Rightarrow> u64 list \<Rightarrow> panic + u64 list" where
  "collect_matched l [] acc = Inr acc"
| "collect_matched l ((k, n) # rest) acc =
     (if Voter n
      then (if ID n = self_id l then collect_matched l rest (acc @ [lastLogIndex l])
            else case flrs l (ID n) of
                   None \<Rightarrow> Inl (Panic ''nil pointer dereference'')
                 | Some f \<Rightarrow> collect_matched l rest (acc @ [status_matchIndex f]))
      else collect_matched l rest acc)"

text \<open>\<^verbatim>\<open>sort.Sort\<close> on a \<^verbatim>\<open>decrUint64Slice\<close> sorts in decreasing order.\<close>

definition sort_decr :: "u64 list \<Rightarrow> u64 list" where
  "sort_decr xs = rev (sort xs)"

text \<open>
  \<^verbatim>\<open>matched\<close> has one place per node, zero where no voter wrote; only \<^verbatim>\<open>matched[:i]\<close> is
  sorted.
\<close>

definition majorityMatchIndex :: "ldrShip \<Rightarrow> panic + u64" where
  "majorityMatchIndex l =
     (case collect_matched l (Nodes (Latest (configs l))) [] of
        Inl p \<Rightarrow> Inl p
      | Inr vs \<Rightarrow>
          let i = length vs;
              matched = sort_decr vs @ replicate (length (Nodes (Latest (configs l))) - i) 0;
              quorum = i div 2 + 1
          in if quorum - 1 < length matched then Inr (matched ! (quorum - 1))
             else Inl (Panic ''index out of range''))"

text \<open>
  The multiset of the specification: the leader's own \<open>lastLogIndex\<close> and the
  \<open>matchIndex\<close> of each peer, voters of \<open>Latest\<close> only; and its \<open>k\<close>-th largest element.
\<close>

definition match_of :: "ldrShip \<Rightarrow> Node \<Rightarrow> u64" where
  "match_of l n =
     (if ID n = self_id l then lastLogIndex l
      else case flrs l (ID n) of None \<Rightarrow> 0 | Some f \<Rightarrow> status_matchIndex f)"

definition voters_of :: "Config \<Rightarrow> Node list" where
  "voters_of c = filter Voter (map snd (Nodes c))"

definition voter_match_indexes :: "ldrShip \<Rightarrow> u64 multiset" where
  "voter_match_indexes l = mset (map (match_of l) (voters_of (Latest (configs l))))"

definition kth_largest :: "nat \<Rightarrow> u64 multiset \<Rightarrow> u64" where
  "kth_largest k M = rev (sorted_list_of_multiset M) ! (k - 1)"

subsection \<open>A leader to run the operations on\<close>

text \<open>
  Node A leads term 2 of a cluster with the voters A, B, C and the non-voter D. Its log
  holds the entries 3 to 7, entry 5 being the no-op of its term; 4 entries are committed
  and applied. B has replicated up to 5, C up to 3, D up to 7.
\<close>

definition config_ABCD :: Config where
  "config_ABCD = \<lparr>Nodes =
     [(''A'', \<lparr>ID = ''A'', Addr = ''a:1'', Voter = True, Promote = False\<rparr>),
      (''B'', \<lparr>ID = ''B'', Addr = ''b:1'', Voter = True, Promote = False\<rparr>),
      (''C'', \<lparr>ID = ''C'', Addr = ''c:1'', Voter = True, Promote = False\<rparr>),
      (''D'', \<lparr>ID = ''D'', Addr = ''d:1'', Voter = False, Promote = True\<rparr>)],
     Index = 1, Term = 1\<rparr>"

definition storage_37 :: storage where
  "storage_37 = \<lparr>s_first = 3, s_last = 7,
     s_log = [entry_at 3, entry_at 4, (entry_at 5)\<lparr>e_term := 2, e_typ := entryNop\<rparr>,
              (entry_at 6)\<lparr>e_term := 2\<rparr>, (entry_at 7)\<lparr>e_term := 2\<rparr>],
     log_failing = False\<rparr>"

definition flr_at :: "u64 \<Rightarrow> flr" where
  "flr_at i = \<lparr>status_matchIndex = i, status_noContact = None, fromLeaderCh = None\<rparr>"

definition ldr_A :: ldrShip where
  "ldr_A = \<lparr>self_id = ''A'', cur_term = 2, state = Leader, leader = ''A'',
     lastLogIndex = 7, lastLogTerm = 2, commitIndex = 4, lastApplied = 4,
     configs = \<lparr>Committed = config_ABCD, Latest = config_ABCD\<rparr>,
     storage = storage_37, stored_configs = None, appendErr = None, fsm_taskCh = [], replies = [],
     close_sel = [], timer_active = False, quorumWait = 0, voter = True, startIndex = 5,
     newEntries = [],
     flrs = [''B'' \<mapsto> flr_at 5, ''C'' \<mapsto> flr_at 3, ''D'' \<mapsto> flr_at 7],
     transfer_inProgress = False\<rparr>"

subsection \<open>Applying committed entries (ldr.go)\<close>

text \<open>
  The \<^verbatim>\<open>select\<close> between \<^verbatim>\<open><-l.close\<close> and a send to the state machine takes its
  branch from \<open>close_sel\<close>. The inner loop of \<^verbatim>\<open>applyCommitted\<close>: reads and barriers at
  the front of the queue whose index is \<open>lastApplied + 1\<close> are taken from the queue and
  sent to the state machine. The result says whether the function returns (the closed
  branch, after replying \<^verbatim>\<open>ErrServerClosed\<close>).
\<close>

definition select_close :: "ldrShip \<Rightarrow> bool \<times> ldrShip" where
  "select_close l =
     (case close_sel l of [] \<Rightarrow> (False, l) | c # sel \<Rightarrow> (c, l\<lparr>close_sel := sel\<rparr>))"

fun send_nonlog :: "NewEntry list \<Rightarrow> ldrShip \<Rightarrow> bool \<times> ldrShip" where
  "send_nonlog [] l = (False, l\<lparr>newEntries := []\<rparr>)"
| "send_nonlog (ne # rest) l =
     (if index ne = lastApplied l + 1 \<and> (e_typ ne = entryRead \<or> e_typ ne = entryBarrier)
      then (case select_close (l\<lparr>newEntries := rest\<rparr>) of
              (cl, l1) \<Rightarrow>
                if cl then (True, l1\<lparr>replies := replies l1 @ [(ne, Some ErrServerClosed)]\<rparr>)
                else send_nonlog rest (l1\<lparr>fsm_taskCh := fsm_taskCh l1 @ [ne]\<rparr>))
      else (False, l\<lparr>newEntries := ne # rest\<rparr>))"

text \<open>
  The entry \<open>lastApplied + 1\<close>: the front of the queue if it has that index, else read
  from the storage (\<^verbatim>\<open>getEntry\<close> panics when it cannot).
\<close>

definition next_entry :: "ldrShip \<Rightarrow> panic + NewEntry \<times> ldrShip" where
  "next_entry l =
     (case (case newEntries l of
              ne # rest \<Rightarrow>
                if index ne = lastApplied l + 1 then Some (ne, l\<lparr>newEntries := rest\<rparr>)
                else None
            | [] \<Rightarrow> None) of
        Some r \<Rightarrow> Inr r
      | None \<Rightarrow>
          (case getEntry (storage l) (lastApplied l + 1) of
             Inl p \<Rightarrow> Inl p
           | Inr e \<Rightarrow> Inr (entry.extend e \<lparr>task = None\<rparr>, l)))"

text \<open>
  \<^verbatim>\<open>applyCommitted\<close>: the outer \<^verbatim>\<open>for\<close> has no bound, so not returning is the value
  \<open>None\<close>.
\<close>

partial_function (option) applyCommitted :: "ldrShip \<Rightarrow> (panic + ldrShip) option" where
  "applyCommitted l =
     (case send_nonlog (newEntries l) l of
        (returned, l1) \<Rightarrow>
          if returned then Some (Inr l1)
          else if lastApplied l1 + 1 > commitIndex l1 then Some (Inr l1)
          else (case next_entry l1 of
                  Inl p \<Rightarrow> Some (Inl p)
                | Inr (ne, l2) \<Rightarrow>
                    let l3 = applyEntry ne l2
                    in applyCommitted (l3\<lparr>lastApplied := lastApplied l3 + 1\<rparr>)))"

subsection \<open>Commit advancement (ldr.go)\<close>

text \<open>
  The sends of \<^verbatim>\<open>notifyFlr\<close>: every follower's \<^verbatim>\<open>fromLeaderCh\<close> ends up holding the
  update (a pending one is taken out first).
\<close>

definition post_update :: "bool \<Rightarrow> ldrShip \<Rightarrow> ldrShip" where
  "post_update includeConfig l =
     (let update = \<lparr>u_lastIndex = lastLogIndex l, u_commitIndex = commitIndex l,
                     u_config = (if includeConfig then Some (Latest (configs l)) else None)\<rparr>
      in l\<lparr>flrs := (\<lambda>i. map_option (\<lambda>f. f\<lparr>fromLeaderCh := Some update\<rparr>) (flrs l i))\<rparr>)"

text \<open>
  \<^verbatim>\<open>onMajorityCommit\<close> and \<^verbatim>\<open>notifyFlr\<close> call each other: \<^verbatim>\<open>onMajorityCommit\<close> is
  defined with the body of its call \<^verbatim>\<open>l.notifyFlr(false)\<close> in place, and \<^verbatim>\<open>notifyFlr\<close>
  after it.
\<close>

partial_function (option) onMajorityCommit :: "ldrShip \<Rightarrow> (panic + ldrShip) option" where
  "onMajorityCommit l =
     (case majorityMatchIndex l of
        Inl p \<Rightarrow> Some (Inl p)
      | Inr n \<Rightarrow>
          if n > commitIndex l \<and> n \<ge> startIndex l
          then (case applyCommitted (setCommitIndex n l) of
                  None \<Rightarrow> None
                | Some (Inl p) \<Rightarrow> Some (Inl p)
                | Some (Inr l1) \<Rightarrow>
                    let l2 = post_update False l1
                    in if voter l2 then onMajorityCommit l2 else Some (Inr l2))
          else Some (Inr l))"

definition notifyFlr :: "bool \<Rightarrow> ldrShip \<Rightarrow> (panic + ldrShip) option" where
  "notifyFlr includeConfig l =
     (let l1 = post_update includeConfig l
      in if voter l1 then onMajorityCommit l1 else Some (Inr l1))"

subsection \<open>Storing an entry (ldr.go)\<close>

text \<open>
  \<^verbatim>\<open>storeEntry\<close> returns an error or nil; an \<^verbatim>\<open>assert\<close> that fails panics.
  \<^verbatim>\<open>ne.reply\<close> is recorded in \<open>replies\<close>.
\<close>

definition storeEntry ::
  "NewEntry \<Rightarrow> ldrShip \<Rightarrow> (panic + error option \<times> ldrShip) option" where
  "storeEntry ne0 l =
     (let ne = ne0\<lparr>index := lastLogIndex l + 1, e_term := cur_term l\<rparr>;
          l1 = l\<lparr>newEntries := newEntries l @ [ne]\<rparr>
      in if e_typ ne = entryRead \<or> e_typ ne = entryBarrier
         then (case applyCommitted l1 of
                 None \<Rightarrow> None
               | Some (Inl p) \<Rightarrow> Some (Inl p)
               | Some (Inr l2) \<Rightarrow> Some (Inr (None, l2)))
         else if transfer_inProgress l1
         then Some (Inr (Some (InProgressError ''transferLeadership''),
                l1\<lparr>newEntries := butlast (newEntries l1),
                   replies := replies l1 @ [(ne, Some (InProgressError ''transferLeadership''))]\<rparr>))
         else (case appendEntry l1 (entry.truncate ne) of
                 Inl err \<Rightarrow>
                   Some (Inr (Some err,
                     setLeader noID (setState Follower (l1\<lparr>appendErr := Some err\<rparr>))))
               | Inr l2 \<Rightarrow>
                   (case (if e_typ ne = entryConfig
                          then (case Config_decode ne of
                                  Inl err \<Rightarrow> Inl (Panic ''BUG'')
                                | Inr config \<Rightarrow>
                                    Inr (Raft_changeConfig config
                                      (l2\<lparr>voter := isVoter config (self_id l2)\<rparr>)))
                          else Inr l2) of
                      Inl p \<Rightarrow> Some (Inl p)
                    | Inr l3 \<Rightarrow>
                        (case notifyFlr (e_typ ne = entryConfig) l3 of
                           None \<Rightarrow> None
                         | Some (Inl p) \<Rightarrow> Some (Inl p)
                         | Some (Inr l4) \<Rightarrow> Some (Inr (None, l4))))))"

text \<open>
  What the apply loop leaves alone: every field but the queue, \<open>lastApplied\<close>, what was
  sent to the state machine, the replies and the coming \<^verbatim>\<open>select\<close>s. Two states are in
  \<open>apply_frame\<close> when they are equal once these five fields are erased.
\<close>

definition erase_applied :: "ldrShip \<Rightarrow> ldrShip" where
  "erase_applied l =
     l\<lparr>newEntries := [], lastApplied := 0, fsm_taskCh := [], replies := [], close_sel := []\<rparr>"

definition apply_frame :: "ldrShip \<Rightarrow> ldrShip \<Rightarrow> bool" where
  "apply_frame l l' = (erase_applied l' = erase_applied l)"

text \<open>The body of \<^verbatim>\<open>applyCommitted\<close>, with the recursive call as a parameter.\<close>

definition apply_body ::
  "(ldrShip \<Rightarrow> (panic + ldrShip) option) \<Rightarrow> ldrShip \<Rightarrow> (panic + ldrShip) option" where
  "apply_body ac l =
     (case send_nonlog (newEntries l) l of
        (returned, l1) \<Rightarrow>
          if returned then Some (Inr l1)
          else if lastApplied l1 + 1 > commitIndex l1 then Some (Inr l1)
          else (case next_entry l1 of
                  Inl p \<Rightarrow> Some (Inl p)
                | Inr (ne, l2) \<Rightarrow>
                    let l3 = applyEntry ne l2
                    in ac (l3\<lparr>lastApplied := lastApplied l3 + 1\<rparr>)))"

text \<open>
  Where a submitted entry can be: still in the queue, sent to the state machine, or
  replied to.
\<close>

definition held :: "ldrShip \<Rightarrow> NewEntry set" where
  "held l = set (newEntries l) \<union> set (fsm_taskCh l) \<union> fst ` set (replies l)"

text \<open>A read and a command as clients submit them, the index and term not yet set.\<close>

definition read_entry :: NewEntry where
  "read_entry = \<lparr>index = 0, e_term = 0, e_typ = entryRead, data = Bytes [], task = Some 1\<rparr>"

definition update_entry :: NewEntry where
  "update_entry =
     \<lparr>index = 0, e_term = 0, e_typ = entryUpdate, data = Bytes [1], task = Some 2\<rparr>"

section \<open>The leader's lease check (leader.go)\<close>

text \<open>
  A \<^verbatim>\<open>time.Time\<close> is the number of nanoseconds since the zero time, so \<^verbatim>\<open>IsZero\<close> is
  being 0; \<^verbatim>\<open>Sub\<close> returns a \<^verbatim>\<open>Duration\<close> and saturates at the largest and smallest
  \<^verbatim>\<open>int64\<close>.
\<close>

type_synonym time = int

definition IsZero :: "time \<Rightarrow> bool" where
  "IsZero t = (t = 0)"

definition maxDuration :: int where
  "maxDuration = 2 ^ 63 - 1"

definition minDuration :: int where
  "minDuration = - (2 ^ 63)"

definition time_Sub :: "time \<Rightarrow> time \<Rightarrow> int" where
  "time_Sub t u =
     (let d = t - u in
      if d > maxDuration then maxDuration else if d < minDuration then minDuration else d)"

text \<open>
  The leader of leader.go: its members (itself among them, all of them voting), the
  running replications by address with the time \<^verbatim>\<open>noContact\<close> since when the member is
  not reached (zero: it is reached), and the role state of the \<^verbatim>\<open>Raft\<close> it embeds.
\<close>

record member =
  addr :: string
  member_matchIndex :: u64

record repl =
  noContact :: time

record leaderState =
  ls_addr :: string
  members :: "member list"
  repls :: "string \<rightharpoonup> repl"
  leaseTimeout :: duration
  ls_state :: State
  leaderID :: string

text \<open>
  Modelled from the spec: \<^verbatim>\<open>quorumSize\<close> (absent from the sources) is
  \<open>\<lfloor>voters/2\<rfloor> + 1\<close>, every member being a voter in leader.go.
\<close>

definition quorumSize :: "leaderState \<Rightarrow> nat" where
  "quorumSize ldr = length (members ldr) div 2 + 1"

text \<open>
  The loop of \<^verbatim>\<open>isQuorumReachable\<close>; \<^verbatim>\<open>ldr.repls[m.addr]\<close> of a member without a
  replication is nil, and reading its lock dereferences it.
\<close>

fun count_reachable :: "leaderState \<Rightarrow> time \<Rightarrow> member list \<Rightarrow> nat \<Rightarrow> panic + nat" where
  "count_reachable ldr now [] reachable = Inr reachable"
| "count_reachable ldr now (m # ms) reachable =
     (if addr m = ls_addr ldr then count_reachable ldr now ms (reachable + 1)
      else case repls ldr (addr m) of
        None \<Rightarrow> Inl (Panic ''nil pointer dereference'')
      | Some rp \<Rightarrow>
          if IsZero (noContact rp) \<or> time_Sub now (noContact rp) < sint (leaseTimeout ldr)
          then count_reachable ldr now ms (reachable + 1)
          else count_reachable ldr now ms reachable)"

definition isQuorumReachable :: "leaderState \<Rightarrow> time \<Rightarrow> panic + bool" where
  "isQuorumReachable ldr now =
     (case count_reachable ldr now (members ldr) 0 of
        Inl p \<Rightarrow> Inl p
      | Inr reachable \<Rightarrow> Inr (reachable \<ge> quorumSize ldr))"

text \<open>
  The case \<^verbatim>\<open><-leaseTimer.C\<close> of the leader's loop, which runs while
  \<^verbatim>\<open>ldr.state == leader\<close>.
\<close>

definition lease_tick :: "leaderState \<Rightarrow> time \<Rightarrow> panic + leaderState" where
  "lease_tick ldr now =
     (case isQuorumReachable ldr now of
        Inl p \<Rightarrow> Inl p
      | Inr reached \<Rightarrow>
          if \<not> reached then Inr (ldr\<lparr>ls_state := Follower, leaderID := []\<rparr>) else Inr ldr)"

text \<open>
  The count of the specification: the leader itself, and every peer whose
  \<open>noContact\<close> is unset or less than the lease timeout before \<open>now\<close>.
\<close>

definition within_lease :: "leaderState \<Rightarrow> time \<Rightarrow> member \<Rightarrow> bool" where
  "within_lease ldr now m =
     (addr m = ls_addr ldr
      \<or> (case repls ldr (addr m) of
            None \<Rightarrow> False
          | Some rp \<Rightarrow> noContact rp = 0 \<or> now - noContact rp < sint (leaseTimeout ldr)))"

definition reachable_voters :: "leaderState \<Rightarrow> time \<Rightarrow> nat" where
  "reachable_voters ldr now = length (filter (within_lease ldr now) (members ldr))"

text \<open>
  A leader of three to run the check on: B failed 2 seconds ago, C 0.3 seconds ago, and
  the lease is 1 second.
\<close>

definition leader_of_3 :: leaderState where
  "leader_of_3 = \<lparr>ls_addr = ''a:1'',
     members = [\<lparr>addr = ''a:1'', member_matchIndex = 0\<rparr>,
                \<lparr>addr = ''b:1'', member_matchIndex = 0\<rparr>,
                \<lparr>addr = ''c:1'', member_matchIndex = 0\<rparr>],
     repls = [''b:1'' \<mapsto> \<lparr>noContact = 8000000000\<rparr>, ''c:1'' \<mapsto> \<lparr>noContact = 9700000000\<rparr>],
     leaseTimeout = 1000000000, ls_state = Leader, leaderID = ''a:1''\<rparr>"

section \<open>The leader's quorum check (ldr.go)\<close>

text \<open>
  The loop of \<^verbatim>\<open>checkQuorum\<close> over the nodes of \<open>Latest\<close>: it counts the voters, and those
  of them that are the leader itself or whose \<open>noContact\<close> is the zero time. The counters
  are Go \<^verbatim>\<open>int\<close>s, at most the number of nodes. \<^verbatim>\<open>l.flrs[id]\<close> of a voter without a
  replication is nil, and reading its status dereferences it.
\<close>

fun count_quorum :: "ldrShip \<Rightarrow> (ID \<times> Node) list \<Rightarrow> nat \<Rightarrow> nat \<Rightarrow> panic + nat \<times> nat" where
  "count_quorum l [] nvoters reachable = Inr (nvoters, reachable)"
| "count_quorum l ((i, n) # ns) nvoters reachable =
     (if Voter n
      then (if i = self_id l then count_quorum l ns (nvoters + 1) (reachable + 1)
            else case flrs l i of
              None \<Rightarrow> Inl (Panic ''nil pointer dereference'')
            | Some f \<Rightarrow>
                if status_noContact f = None
                then count_quorum l ns (nvoters + 1) (reachable + 1)
                else count_quorum l ns (nvoters + 1) reachable)
      else count_quorum l ns nvoters reachable)"

text \<open>
  \<^verbatim>\<open>safeTimer\<close> (util.go): \<^verbatim>\<open>stop\<close> leaves it inactive, \<^verbatim>\<open>reset\<close> stops and restarts it.
  Of the timer the state keeps \<open>timer_active\<close>; when it expires the leader's loop calls
  \<^verbatim>\<open>onTimeout\<close>.
\<close>

definition timer_stop :: "ldrShip \<Rightarrow> ldrShip" where
  "timer_stop l = l\<lparr>timer_active := False\<rparr>"

definition timer_reset :: "duration \<Rightarrow> ldrShip \<Rightarrow> ldrShip" where
  "timer_reset d l = (timer_stop l)\<lparr>timer_active := True\<rparr>"

text \<open>
  \<^verbatim>\<open>checkQuorum\<close>; the calls of \<^verbatim>\<open>l.trace\<close> report to the user and change nothing. It is
  called with \<^verbatim>\<open>l.quorumWait\<close> when a replication reports a change of \<open>noContact\<close>, and
  with 0 by \<^verbatim>\<open>onTimeout\<close>.
\<close>

definition checkQuorum :: "duration \<Rightarrow> ldrShip \<Rightarrow> panic + ldrShip" where
  "checkQuorum wait l =
     (case count_quorum l (Nodes (Latest (configs l))) 0 0 of
        Inl p \<Rightarrow> Inl p
      | Inr (nvoters, reachable) \<Rightarrow>
          if reachable \<ge> nvoters div 2 + 1
          then Inr (if timer_active l then timer_stop l else l)
          else if wait = 0 then Inr (setLeader noID (setState Follower l))
          else if \<not> timer_active l then Inr (timer_reset wait l)
          else Inr l)"

definition onTimeout :: "ldrShip \<Rightarrow> panic + ldrShip" where
  "onTimeout l = checkQuorum 0 l"

text \<open>
  The voters that the check of ldr.go counts as reached: the leader itself, and every
  voter whose \<open>noContact\<close> is unset.
\<close>

definition contact_unset :: "ldrShip \<Rightarrow> ID \<times> Node \<Rightarrow> bool" where
  "contact_unset l = (\<lambda>(i, n). Voter n \<and> (i = self_id l
      \<or> (case flrs l i of None \<Rightarrow> False | Some f \<Rightarrow> status_noContact f = None)))"

definition unset_voters :: "ldrShip \<Rightarrow> nat" where
  "unset_voters l = length (filter (contact_unset l) (Nodes (Latest (configs l))))"

text \<open>
  The count of the specification on the state of ldr.go: the leader itself, and every
  voter whose \<open>noContact\<close> is unset or less than the lease before \<open>now\<close>.
\<close>

definition contact_within :: "time \<Rightarrow> duration \<Rightarrow> ldrShip \<Rightarrow> ID \<times> Node \<Rightarrow> bool" where
  "contact_within now lease l = (\<lambda>(i, n). Voter n \<and> (i = self_id l
      \<or> (case flrs l i of
            None \<Rightarrow> False
          | Some f \<Rightarrow>
              (case status_noContact f of None \<Rightarrow> True | Some t \<Rightarrow> now - t < sint lease))))"

definition spec_reachable_voters :: "time \<Rightarrow> duration \<Rightarrow> ldrShip \<Rightarrow> nat" where
  "spec_reachable_voters now lease l
     = length (filter (contact_within now lease l) (Nodes (Latest (configs l))))"

text \<open>
  A leader of five voters to run the check on, at the time 10 s with a wait of 1 s: B
  was lost at 9.4 s, C at 9.7 s, D and E at 1 s.
\<close>

definition config_5 :: Config where
  "config_5 = \<lparr>Nodes =
     [(''A'', \<lparr>ID = ''A'', Addr = ''a:1'', Voter = True, Promote = False\<rparr>),
      (''B'', \<lparr>ID = ''B'', Addr = ''b:1'', Voter = True, Promote = False\<rparr>),
      (''C'', \<lparr>ID = ''C'', Addr = ''c:1'', Voter = True, Promote = False\<rparr>),
      (''D'', \<lparr>ID = ''D'', Addr = ''d:1'', Voter = True, Promote = False\<rparr>),
      (''E'', \<lparr>ID = ''E'', Addr = ''e:1'', Voter = True, Promote = False\<rparr>)],
     Index = 1, Term = 1\<rparr>"

definition flr_lost :: "time \<Rightarrow> flr" where
  "flr_lost t = \<lparr>status_matchIndex = 4, status_noContact = Some t, fromLeaderCh = None\<rparr>"

definition ldr_5 :: ldrShip where
  "ldr_5 = ldr_A\<lparr>configs := \<lparr>Committed = config_5, Latest = config_5\<rparr>,
     quorumWait := 1000000000, timer_active := False,
     flrs := [''B'' \<mapsto> flr_lost 9400000000, ''C'' \<mapsto> flr_lost 9700000000,
              ''D'' \<mapsto> flr_lost 1000000000, ''E'' \<mapsto> flr_lost 1000000000]\<rparr>"

section \<open>Changing the configuration (config.go)\<close>

text \<open>The task \<^verbatim>\<open>changeConfig\<close>: the proposed configuration and whom to reply to.\<close>

record changeConfig =
  newConf :: Config
  cc_task :: "nat option"

text \<open>
  \<^verbatim>\<open>voters(c)\<close>: the ids of the voters of a configuration, as the set of keys of the
  \<^verbatim>\<open>map[ID]bool\<close> it builds.
\<close>

definition voters :: "Config \<Rightarrow> ID set" where
  "voters c = fst ` set (filter (\<lambda>(i, n). Voter n) (Nodes c))"

text \<open>
  Modelled from the spec: \<^verbatim>\<open>startReplication\<close> (absent from the sources) initialises the
  replication state of a peer, \<open>matchIndex\<close> 0 and reachable, and spawns its worker.
\<close>

definition startReplication :: "Node \<Rightarrow> ldrShip \<Rightarrow> ldrShip" where
  "startReplication node l = l\<lparr>flrs := (flrs l)(ID node \<mapsto> flr_at 0)\<rparr>"

fun start_new_repls :: "(ID \<times> Node) list \<Rightarrow> ldrShip \<Rightarrow> ldrShip" where
  "start_new_repls [] l = l"
| "start_new_repls ((i, node) # rest) l =
     start_new_repls rest (if flrs l i = None then startReplication node l else l)"

text \<open>
  The leader's \<^verbatim>\<open>changeConfig\<close>. The result holds what was replied to the task, if
  anything: nothing is replied while the entry is only stored. The replications are
  \<^verbatim>\<open>l.repls\<close> there and \<^verbatim>\<open>l.flrs\<close> in ldr.go. \<^verbatim>\<open>storeEntry\<close> is ldr.go's, the one the
  sources hold; its result is not looked at, and the entry's index and term are those it
  assigned.
\<close>

definition changeConfig ::
  "splitHostPort \<Rightarrow> atoi \<Rightarrow> changeConfig \<Rightarrow> ldrShip
     \<Rightarrow> (panic + error option \<times> ldrShip) option" where
  "changeConfig shp atoi t l =
     (if \<not> IsCommitted (configs l) then Some (Inr (Some ErrConfigChangeInProgress, l))
      else if commitIndex l < startIndex l then Some (Inr (Some ErrNotCommitReady, l))
      else if Index (newConf t) \<noteq> Index (Latest (configs l))
        then Some (Inr (Some ErrConfigChanged, l))
      else
        let config = newConf t in
        case Config_validate shp atoi config of
          Some err \<Rightarrow> Some (Inr (Some (Errorf ''raft.changeConfig: '' err), l))
        | None \<Rightarrow>
            let curVoters = voters (Latest (configs l)) - voters config;
                newVoters = voters config - voters (Latest (configs l))
            in if card newVoters > 0
               then Some (Inr (Some (ErrorString
                 ''raft.changeConfig: new voters found. please add them as nonvoters with promote flag''),
                 l))
               else if card curVoters > 1
               then Some (Inr (Some (ErrorString
                 ''raft.changeConfig: only one voter can lose its voting right''), l))
               else
                 (case storeEntry (entry.extend (Config_encode config) \<lparr>task = cc_task t\<rparr>) l of
                    None \<Rightarrow> None
                  | Some (Inl p) \<Rightarrow> Some (Inl p)
                  | Some (Inr (err, l1)) \<Rightarrow>
                      let config1 = config\<lparr>Index := lastLogIndex l + 1, Term := cur_term l\<rparr>;
                          l2 = Raft_changeConfig config1 l1;
                          l3 = l2\<lparr>flrs := (\<lambda>i. if i \<in> fst ` set (Nodes config1)
                                               then flrs l2 i else None)\<rparr>
                      in Some (Inr (None, start_new_repls (Nodes config1) l3))))"

text \<open>
  A cluster of four voters, and two proposals: one makes the non-voter D of
  \<open>config_ABCD\<close> a voter at once, one takes the vote from C and D.
\<close>

definition config_4 :: Config where
  "config_4 = \<lparr>Nodes =
     [(''A'', \<lparr>ID = ''A'', Addr = ''a:1'', Voter = True, Promote = False\<rparr>),
      (''B'', \<lparr>ID = ''B'', Addr = ''b:1'', Voter = True, Promote = False\<rparr>),
      (''C'', \<lparr>ID = ''C'', Addr = ''c:1'', Voter = True, Promote = False\<rparr>),
      (''D'', \<lparr>ID = ''D'', Addr = ''d:1'', Voter = True, Promote = False\<rparr>)],
     Index = 1, Term = 1\<rparr>"

definition config_AB :: Config where
  "config_AB = \<lparr>Nodes =
     [(''A'', \<lparr>ID = ''A'', Addr = ''a:1'', Voter = True, Promote = False\<rparr>),
      (''B'', \<lparr>ID = ''B'', Addr = ''b:1'', Voter = True, Promote = False\<rparr>),
      (''C'', \<lparr>ID = ''C'', Addr = ''c:1'', Voter = False, Promote = False\<rparr>),
      (''D'', \<lparr>ID = ''D'', Addr = ''d:1'', Voter = False, Promote = False\<rparr>)],
     Index = 1, Term = 1\<rparr>"

text \<open>A library that splits every address into a host and the port 1.\<close>

definition shp_1 :: splitHostPort where
  "shp_1 a = Inr (''h'', ''1'')"

definition atoi_1 :: atoi where
  "atoi_1 s = Inr 1"

section \<open>Applying committed entries (fsm.go)\<close>







subsection \<open>What the apply loop is to apply\<close>























section \<open>Retry backoff\<close>

lemma backOff_loop_closed:
  "backOff_loop base pw = base * 2 ^ (unat pw - 2)"
proof (induction base pw rule: backOff_loop.induct)
  case (1 base pw)
  show ?case
  proof (cases "2 < pw")
    case True
    then have u: "2 < unat pw"
      by (simp add: word_less_nat_alt)
    then have m: "unat (pw - 1) = unat pw - 1"
      by (metis unat_minus_one not_less_zero unat_0)
    have e: "unat pw - 2 = Suc (unat pw - 1 - 2)"
      using u by simp
    have "backOff_loop base pw = backOff_loop (base * 2) (pw - 1)"
      by (subst backOff_loop.simps) (simp add: True)
    also have "\<dots> = base * 2 * 2 ^ (unat (pw - 1) - 2)"
      using "1.IH" [OF True] .
    also have "\<dots> = base * 2 ^ (unat pw - 2)"
      unfolding m by (subst e) simp
    finally show ?thesis .
  next
    case False
    then have "unat pw \<le> 2"
      by (simp add: word_less_nat_alt)
    with False show ?thesis
      by (subst backOff_loop.simps) simp
  qed
qed

lemma unat_min_u64: "unat (min_u64 a b) = min (unat a) (unat b)"
  by (simp add: min_u64_def word_le_nat_alt min_def)

lemma backOff_closed:
  "backOff rnd = failureWait * 2 ^ min (unat rnd - 2) 10"
proof -
  have "unat (min_u64 rnd maxFailureScale) - 2 = min (unat rnd - 2) 10"
    by (simp add: unat_min_u64 maxFailureScale_def)
  then show ?thesis
    by (simp add: backOff_def backOff_loop_closed)
qed

lemma sint_failureWait_scaled:
  "k \<le> 10 \<Longrightarrow> sint (failureWait * 2 ^ k) = 10000000 * 2 ^ k"
proof -
  assume "k \<le> 10"
  then have "k = 0 \<or> k = 1 \<or> k = 2 \<or> k = 3 \<or> k = 4 \<or> k = 5 \<or> k = 6 \<or> k = 7 \<or> k = 8
      \<or> k = 9 \<or> k = 10"
    by arith
  then show ?thesis
    by (auto simp: failureWait_def)
qed

lemma backOff_sint: "sint (backOff rnd) = 10000000 * 2 ^ min (unat rnd - 2) 10"
  by (simp add: backOff_closed sint_failureWait_scaled)

lemma min_u64_wrapped: "min_u64 (- 1) 10 = 10"
  unfolding min_u64_def by (metis word_order.extremum_uniqueI)

lemma spec_backOff_agrees:
  "2 \<le> rnd \<Longrightarrow> spec_backOff (uint rnd) = real_of_int (sint (backOff rnd))"
proof -
  assume a: "2 \<le> rnd"
  then have u: "2 \<le> unat rnd" by (simp add: word_le_nat_alt)
  have "uint rnd = int (unat rnd)" by simp
  then have "min (uint rnd - 2) 10 = int (min (unat rnd - 2) 10)"
    using u by linarith
  then have "spec_backOff (uint rnd) = 10000000 * 2 ^ min (unat rnd - 2) 10"
    unfolding spec_backOff_def by (simp only: power_int_of_nat)
  then show ?thesis
    by (simp only: backOff_sint) simp
qed

text \<open>
  Claim C9, as stated, at \<open>round = 1\<close>: the code waits 10 ms, while the formula
  \<open>10 ms \<times> 2^(min(round-2, 10))\<close> gives 5 ms over the integers and 10240 ms in
  \<^verbatim>\<open>uint64\<close> arithmetic.
\<close>

theorem backOff_spec_formula_counterexample:
  "sint (backOff 1) = 10000000 \<and> spec_backOff 1 = 5000000
   \<and> spec_backOff_u64 1 = 10240000000"
  by (simp add: backOff_sint spec_backOff_def spec_backOff_u64_def min_u64_wrapped
      power_int_def)

text \<open>
  Claim C9, amended: for every failure count \<open>round\<close> (0 and 1 included) \<^verbatim>\<open>backOff\<close>
  returns \<open>10 ms \<times> 2^(min(max(round,2) - 2, 10))\<close> without overflow: 10 ms for
  \<open>round \<le> 2\<close>, doubling per additional failure, and \<open>10 ms \<times> 2^10\<close> from
  \<open>round = 12\<close> on; the formula of the specification agrees with it from \<open>round = 2\<close> on.
  The truncating subtraction of \<open>nat\<close> is the \<open>max(round,2) - 2\<close>.
\<close>

theorem backOff_value:
  "sint (backOff rnd) = 10000000 * 2 ^ min (unat rnd - 2) 10
   \<and> (rnd \<le> 2 \<longrightarrow> sint (backOff rnd) = 10000000)
   \<and> (12 \<le> rnd \<longrightarrow> sint (backOff rnd) = 10000000 * 2 ^ 10)
   \<and> (2 \<le> rnd \<longrightarrow> real_of_int (sint (backOff rnd)) = spec_backOff (uint rnd))"
proof -
  have 1: "rnd \<le> 2 \<longrightarrow> sint (backOff rnd) = 10000000"
    by (simp add: backOff_sint word_le_nat_alt)
  have 2: "12 \<le> rnd \<longrightarrow> sint (backOff rnd) = 10000000 * 2 ^ 10"
  proof
    assume "12 \<le> rnd"
    then have "12 \<le> unat rnd" by (simp add: word_le_nat_alt)
    then have "min (unat rnd - 2) 10 = 10" by linarith
    then show "sint (backOff rnd) = 10000000 * 2 ^ 10"
      by (simp only: backOff_sint)
  qed
  from backOff_sint 1 2 spec_backOff_agrees show ?thesis
    by simp
qed

theorem backOff_value_witness:
  "sint (backOff 5) = 80000000 \<and> (2::u64) \<le> 5 \<and> \<not> (5::u64) \<le> 2 \<and> \<not> (12::u64) \<le> 5
   \<and> spec_backOff 5 = 80000000
   \<and> sint (backOff 2) = 10000000 \<and> sint (backOff 12) = 10240000000"
proof -
  have 5: "sint (backOff 5) = 80000000"
    using backOff_value [of 5] by simp
  have "spec_backOff 5 = signed (backOff 5)"
    using backOff_value [of 5] by simp
  also have "\<dots> = real_of_int (sint (backOff 5))"
    by simp
  finally have "spec_backOff 5 = 80000000"
    unfolding 5 by simp
  with 5 backOff_value [of 2] backOff_value [of 12] show ?thesis
    by simp
qed

section \<open>Configuration validation\<close>

lemma count_voters_acc:
  "count_voters ns k = k + length (filter (\<lambda>(i, node). Voter node) ns)"
  by (induction ns k rule: count_voters.induct) auto

lemma numVoters_filter:
  "numVoters c = length (filter (\<lambda>(i, node). Voter node) (Nodes c))"
  by (simp add: numVoters_def count_voters_acc)

text \<open>
  Claim C10: \<^verbatim>\<open>Config.validate\<close> returns an error for every configuration with exactly
  one voter, and that error is "zero voters" when the nodes themselves pass their checks;
  a configuration whose nodes pass and that has no voter at all (or two or more) passes.
  So a passed validation says only that the number of voters is not 1.
\<close>

theorem Config_validate_voter_count:
  "(numVoters c = 1 \<longrightarrow> Config_validate shp atoi c \<noteq> None)
   \<and> (validate_nodes shp atoi (Nodes c) {} = None \<longrightarrow>
        (numVoters c = 1 \<longrightarrow>
           Config_validate shp atoi c = Some (ErrorString ''zero voters''))
        \<and> (numVoters c = 0 \<longrightarrow> Config_validate shp atoi c = None)
        \<and> (Config_validate shp atoi c = None \<longleftrightarrow> numVoters c \<noteq> 1))"
  by (auto simp: Config_validate_def split: option.splits)

theorem Config_validate_voter_count_witness:
  "numVoters \<lparr>Nodes = [(''a'', \<lparr>ID = ''a'', Addr = ''h:1'', Voter = True, Promote = False\<rparr>)],
      Index = 1, Term = 1\<rparr> = 1
   \<and> validate_nodes (\<lambda>a. Inr (''h'', ''1'')) (\<lambda>s. Inr 1)
        [(''a'', \<lparr>ID = ''a'', Addr = ''h:1'', Voter = True, Promote = False\<rparr>)] {} = None
   \<and> Config_validate (\<lambda>a. Inr (''h'', ''1'')) (\<lambda>s. Inr 1)
        \<lparr>Nodes = [(''a'', \<lparr>ID = ''a'', Addr = ''h:1'', Voter = True, Promote = False\<rparr>)],
         Index = 1, Term = 1\<rparr> = Some (ErrorString ''zero voters'')
   \<and> numVoters \<lparr>Nodes = [(''b'', \<lparr>ID = ''b'', Addr = ''h:1'', Voter = False, Promote = False\<rparr>)],
      Index = 1, Term = 1\<rparr> = 0
   \<and> validate_nodes (\<lambda>a. Inr (''h'', ''1'')) (\<lambda>s. Inr 1)
        [(''b'', \<lparr>ID = ''b'', Addr = ''h:1'', Voter = False, Promote = False\<rparr>)] {} = None
   \<and> Config_validate (\<lambda>a. Inr (''h'', ''1'')) (\<lambda>s. Inr 1)
        \<lparr>Nodes = [(''b'', \<lparr>ID = ''b'', Addr = ''h:1'', Voter = False, Promote = False\<rparr>)],
         Index = 1, Term = 1\<rparr> = None"
proof -
  let ?shp = "\<lambda>a :: string. Inr (''h'', ''1'') :: string + (string \<times> string)"
  let ?atoi = "\<lambda>s :: string. Inr 1 :: string + int"
  let ?c1 = "\<lparr>Nodes = [(''a'', \<lparr>ID = ''a'', Addr = ''h:1'', Voter = True, Promote = False\<rparr>)],
      Index = 1, Term = 1\<rparr>"
  let ?c0 = "\<lparr>Nodes = [(''b'', \<lparr>ID = ''b'', Addr = ''h:1'', Voter = False, Promote = False\<rparr>)],
      Index = 1, Term = 1\<rparr>"
  have n1: "numVoters ?c1 = 1" and n0: "numVoters ?c0 = 0"
    by (simp_all add: numVoters_def)
  have v1: "validate_nodes ?shp ?atoi (Nodes ?c1) {} = None"
    and v0: "validate_nodes ?shp ?atoi (Nodes ?c0) {} = None"
    by (simp_all add: Node_validate_def)
  from Config_validate_voter_count [of ?c1 ?shp ?atoi] n1 v1
  have r1: "Config_validate ?shp ?atoi ?c1 = Some (ErrorString ''zero voters'')"
    by blast
  from Config_validate_voter_count [of ?c0 ?shp ?atoi] n0 v0
  have r0: "Config_validate ?shp ?atoi ?c0 = None"
    by blast
  from n1 n0 v1 v0 r1 r0 show ?thesis
    by simp
qed

section \<open>The storage facade: first and last\<close>

lemma storage_ok_first_last_inv: "storage_ok s \<Longrightarrow> first_last_inv s"
  by (auto simp: storage_ok_def first_last_inv_def split: if_splits)

lemma count_nonzero:
  fixes f l :: u64
  shows "f \<noteq> 0 \<Longrightarrow> f \<le> l \<Longrightarrow> l - f + 1 \<noteq> 0"
  by uint_arith

lemma storage_count_zero:
  "storage_ok s \<Longrightarrow> (storage_count s = 0) = (s_first s = 0 \<and> s_last s = 0)"
  by (auto simp: storage_ok_def storage_count_def count_nonzero split: if_splits)

lemma deleteLTE_arith:
  fixes f l i :: u64
  shows "f \<noteq> 0 \<Longrightarrow> f \<le> l \<Longrightarrow> \<not> (i - f + 1 > l - f + 1) \<Longrightarrow> i \<noteq> l
    \<Longrightarrow> i + 1 \<noteq> 0 \<and> i + 1 \<le> l"
  by uint_arith

lemma deleteGTE_arith:
  fixes f l i :: u64
  shows "f \<noteq> 0 \<Longrightarrow> f \<le> l \<Longrightarrow> \<not> (l - i + 1 > l - f + 1) \<Longrightarrow> i \<noteq> f
    \<Longrightarrow> i - 1 \<noteq> 0 \<and> f \<le> i - 1"
  by uint_arith

lemma storage_append_ok:
  assumes "storage_append s e = Inr s'" and "index e \<noteq> 0"
  shows "first_last_inv s'"
    and "storage_ok s \<Longrightarrow> s_first s \<le> index e \<Longrightarrow> storage_ok s'"
    and "storage_ok s \<Longrightarrow> storage_count s = 0 \<Longrightarrow>
           s_first s' = index e \<and> s_last s' = index e"
  using assms
  by (auto simp: storage_append_def first_last_inv_def storage_ok_def storage_count_zero
      split: if_splits)

lemma deleteLTE_ok:
  assumes "deleteLTE s i = Inr s'" and "storage_ok s"
  shows "storage_ok s'" and "i = s_last s \<Longrightarrow> s_first s' = 0 \<and> s_last s' = 0"
proof -
  from assms(1) have c: "storage_count s \<noteq> 0"
    and n: "\<not> (i - s_first s + 1 > storage_count s)"
    by (auto simp: deleteLTE_def Let_def split: if_splits)
  from c have f: "s_first s \<noteq> 0"
    and cnt: "storage_count s = s_last s - s_first s + 1"
    by (auto simp: storage_count_def split: if_splits)
  from f assms(2) have le: "s_first s \<le> s_last s"
    by (simp add: storage_ok_def)
  show "i = s_last s \<Longrightarrow> s_first s' = 0 \<and> s_last s' = 0"
    using assms(1) by (auto simp: deleteLTE_def Let_def split: if_splits)
  show "storage_ok s'"
  proof (cases "i = s_last s")
    case True
    with assms(1) show ?thesis
      by (auto simp: deleteLTE_def Let_def storage_ok_def split: if_splits)
  next
    case False
    with assms(1) have s': "s_first s' = i + 1" "s_last s' = s_last s"
      by (auto simp: deleteLTE_def Let_def split: if_splits)
    from deleteLTE_arith [OF f le _ False] n cnt
    have "i + 1 \<noteq> 0 \<and> i + 1 \<le> s_last s"
      by simp
    with s' show ?thesis
      by (simp add: storage_ok_def)
  qed
qed

lemma deleteGTE_ok:
  assumes "deleteGTE s i = Inr s'" and "storage_ok s"
  shows "storage_ok s'" and "i = s_first s \<Longrightarrow> s_first s' = 0 \<and> s_last s' = 0"
proof -
  from assms(1) have c: "storage_count s \<noteq> 0"
    and n: "\<not> (s_last s - i + 1 > storage_count s)"
    by (auto simp: deleteGTE_def Let_def split: if_splits)
  from c have f: "s_first s \<noteq> 0"
    and cnt: "storage_count s = s_last s - s_first s + 1"
    by (auto simp: storage_count_def split: if_splits)
  from f assms(2) have le: "s_first s \<le> s_last s"
    by (simp add: storage_ok_def)
  show "i = s_first s \<Longrightarrow> s_first s' = 0 \<and> s_last s' = 0"
    using assms(1) by (auto simp: deleteGTE_def Let_def split: if_splits)
  show "storage_ok s'"
  proof (cases "i = s_first s")
    case True
    with assms(1) show ?thesis
      by (auto simp: deleteGTE_def Let_def storage_ok_def split: if_splits)
  next
    case False
    with assms(1) have s': "s_first s' = s_first s" "s_last s' = i - 1"
      by (auto simp: deleteGTE_def Let_def split: if_splits)
    from deleteGTE_arith [OF f le _ False] n cnt
    have "i - 1 \<noteq> 0 \<and> s_first s \<le> i - 1"
      by simp
    with s' f show ?thesis
      by (simp add: storage_ok_def)
  qed
qed

lemma storage_init_ok:
  assumes "storage_init s = (err, s')" and "storage_ok s"
    and "s_log s \<noteq> [] \<Longrightarrow>
      index (hd (s_log s)) \<noteq> 0 \<and> index (hd (s_log s)) \<le> index (List.last (s_log s))"
  shows "storage_ok s'"
  using assms
  by (auto simp: storage_init_def storage_ok_def split: if_splits)

text \<open>
  Claim C8. A facade is well formed when it has no entries (\<open>first = last = 0\<close>) or
  \<open>1 \<le> first \<le> last\<close>. On a well-formed facade \<open>first = 0\<close> iff \<open>last = 0\<close>, and
  \<^verbatim>\<open>count\<close> is 0 exactly when both are 0 and \<open>last - first + 1\<close> otherwise. Every
  operation that returns keeps the facade well formed: \<^verbatim>\<open>append\<close> of an entry whose
  index is not 0 and not below \<open>first\<close> (entries carry indices from 1 on, in ascending
  order), \<^verbatim>\<open>deleteLTE\<close>, \<^verbatim>\<open>deleteGTE\<close>, and \<^verbatim>\<open>init\<close> on a Log whose first entry has
  an index that is not 0 and not above the last entry's. \<^verbatim>\<open>deleteLTE(last)\<close> and
  \<^verbatim>\<open>deleteGTE(first)\<close> set both to 0, and \<^verbatim>\<open>append\<close> on an empty facade sets both to the
  entry's index.
\<close>

theorem storage_first_last:
  assumes "storage_ok s"
  shows "first_last_inv s
    \<and> (storage_count s = 0) = (s_first s = 0 \<and> s_last s = 0)
    \<and> storage_count s = (if s_first s = 0 \<and> s_last s = 0 then 0
                            else s_last s - s_first s + 1)
    \<and> (storage_append s e = Inr sa \<and> index e \<noteq> 0 \<and> s_first s \<le> index e \<longrightarrow>
           storage_ok sa \<and> first_last_inv sa
           \<and> (storage_count s = 0 \<longrightarrow> s_first sa = index e \<and> s_last sa = index e))
    \<and> (deleteLTE s i = Inr sb \<longrightarrow>
           storage_ok sb \<and> first_last_inv sb
           \<and> (i = s_last s \<longrightarrow> s_first sb = 0 \<and> s_last sb = 0))
    \<and> (deleteGTE s j = Inr sc \<longrightarrow>
           storage_ok sc \<and> first_last_inv sc
           \<and> (j = s_first s \<longrightarrow> s_first sc = 0 \<and> s_last sc = 0))
    \<and> (storage_init s = (err, sd)
         \<and> (s_log s \<noteq> [] \<longrightarrow> index (hd (s_log s)) \<noteq> 0
              \<and> index (hd (s_log s)) \<le> index (List.last (s_log s))) \<longrightarrow>
           storage_ok sd \<and> first_last_inv sd)"
proof -
  have 1: "first_last_inv s"
    using assms by (rule storage_ok_first_last_inv)
  have 2: "(storage_count s = 0) = (s_first s = 0 \<and> s_last s = 0)"
    using assms by (rule storage_count_zero)
  have 3: "storage_count s = (if s_first s = 0 \<and> s_last s = 0 then 0
                           else s_last s - s_first s + 1)"
    using 2 by (auto simp: storage_count_def)
  have 4: "storage_append s e = Inr sa \<and> index e \<noteq> 0 \<and> s_first s \<le> index e \<longrightarrow>
          storage_ok sa \<and> first_last_inv sa
          \<and> (storage_count s = 0 \<longrightarrow> s_first sa = index e \<and> s_last sa = index e)"
    using assms storage_append_ok [of s e sa] by blast
  have 5: "deleteLTE s i = Inr sb \<longrightarrow>
          storage_ok sb \<and> first_last_inv sb
          \<and> (i = s_last s \<longrightarrow> s_first sb = 0 \<and> s_last sb = 0)"
    using assms deleteLTE_ok [of s i sb] storage_ok_first_last_inv [of sb] by blast
  have 6: "deleteGTE s j = Inr sc \<longrightarrow>
          storage_ok sc \<and> first_last_inv sc
          \<and> (j = s_first s \<longrightarrow> s_first sc = 0 \<and> s_last sc = 0)"
    using assms deleteGTE_ok [of s j sc] storage_ok_first_last_inv [of sc] by blast
  have 7: "storage_init s = (err, sd)
        \<and> (s_log s \<noteq> [] \<longrightarrow> index (hd (s_log s)) \<noteq> 0
             \<and> index (hd (s_log s)) \<le> index (List.last (s_log s))) \<longrightarrow>
          storage_ok sd \<and> first_last_inv sd"
    using assms storage_init_ok [of s err sd] storage_ok_first_last_inv [of sd] by blast
  from 1 2 3 4 5 6 7 show ?thesis
    by (intro conjI)
qed

theorem storage_first_last_witness:
  "storage_ok storage_345
   \<and> first_last_inv storage_345 \<and> storage_count storage_345 = 3
   \<and> storage_append storage_345 (entry_at 6)
       = Inr (storage_345\<lparr>s_log := s_log storage_345 @ [entry_at 6], s_last := 6\<rparr>)
   \<and> storage_ok (storage_345\<lparr>s_log := s_log storage_345 @ [entry_at 6], s_last := 6\<rparr>)
   \<and> deleteLTE storage_345 5 = Inr (storage_345\<lparr>s_log := [], s_first := 0, s_last := 0\<rparr>)
   \<and> deleteLTE storage_345 3
       = Inr (storage_345\<lparr>s_log := [entry_at 4, entry_at 5], s_first := 4\<rparr>)
   \<and> storage_ok (storage_345\<lparr>s_log := [entry_at 4, entry_at 5], s_first := 4\<rparr>)
   \<and> deleteGTE storage_345 3 = Inr (storage_345\<lparr>s_log := [], s_first := 0, s_last := 0\<rparr>)
   \<and> deleteGTE storage_345 5
       = Inr (storage_345\<lparr>s_log := [entry_at 3, entry_at 4], s_last := 4\<rparr>)
   \<and> storage_ok (storage_345\<lparr>s_log := [entry_at 3, entry_at 4], s_last := 4\<rparr>)
   \<and> storage_init (storage_345\<lparr>s_first := 0, s_last := 0\<rparr>) = (None, storage_345)
   \<and> storage_ok storage_empty \<and> storage_count storage_empty = 0
   \<and> storage_append storage_empty (entry_at 1)
       = Inr (storage_empty\<lparr>s_log := [entry_at 1], s_first := 1, s_last := 1\<rparr>)
   \<and> storage_ok (storage_empty\<lparr>s_log := [entry_at 1], s_first := 1, s_last := 1\<rparr>)"
proof -
  have ok: "storage_ok storage_345" and ok0: "storage_ok storage_empty"
    and okz: "storage_ok (storage_345\<lparr>s_first := 0, s_last := 0\<rparr>)"
    by (simp_all add: storage_ok_def storage_345_def storage_empty_def)
  have a: "storage_append storage_345 (entry_at 6)
       = Inr (storage_345\<lparr>s_log := s_log storage_345 @ [entry_at 6], s_last := 6\<rparr>)"
    by (simp add: storage_append_def storage_345_def entry_at_def)
  have a0: "storage_append storage_empty (entry_at 1)
       = Inr (storage_empty\<lparr>s_log := [entry_at 1], s_first := 1, s_last := 1\<rparr>)"
    by (simp add: storage_append_def storage_empty_def entry_at_def)
  have l5: "deleteLTE storage_345 5
      = Inr (storage_345\<lparr>s_log := [], s_first := 0, s_last := 0\<rparr>)"
    by (simp add: deleteLTE_def storage_count_def storage_345_def)
  have l3: "deleteLTE storage_345 3
      = Inr (storage_345\<lparr>s_log := [entry_at 4, entry_at 5], s_first := 4\<rparr>)"
    by (simp add: deleteLTE_def storage_count_def storage_345_def)
  have g3: "deleteGTE storage_345 3
      = Inr (storage_345\<lparr>s_log := [], s_first := 0, s_last := 0\<rparr>)"
    by (simp add: deleteGTE_def storage_count_def storage_345_def)
  have g5: "deleteGTE storage_345 5
      = Inr (storage_345\<lparr>s_log := [entry_at 3, entry_at 4], s_last := 4\<rparr>)"
    by (simp add: deleteGTE_def storage_count_def storage_345_def)
  have i: "storage_init (storage_345\<lparr>s_first := 0, s_last := 0\<rparr>) = (None, storage_345)"
    by (simp add: storage_init_def storage_345_def entry_at_def)
  have il: "s_log (storage_345\<lparr>s_first := 0, s_last := 0\<rparr>) \<noteq> [] \<longrightarrow>
      index (hd (s_log (storage_345\<lparr>s_first := 0, s_last := 0\<rparr>))) \<noteq> 0
      \<and> index (hd (s_log (storage_345\<lparr>s_first := 0, s_last := 0\<rparr>)))
          \<le> index (List.last (s_log (storage_345\<lparr>s_first := 0, s_last := 0\<rparr>)))"
    by (simp add: storage_345_def entry_at_def)
  have e6: "index (entry_at 6) \<noteq> 0 \<and> s_first storage_345 \<le> index (entry_at 6)"
    and e1: "index (entry_at 1) \<noteq> 0 \<and> s_first storage_empty \<le> index (entry_at 1)"
    by (simp_all add: entry_at_def storage_345_def storage_empty_def)
  have c: "storage_count storage_345 = 3" and c0: "storage_count storage_empty = 0"
    by (simp_all add: storage_count_def storage_345_def storage_empty_def)
  from storage_first_last [OF ok] have inv: "first_last_inv storage_345"
    by blast
  from storage_first_last [OF ok, where e = "entry_at 6"] a e6
  have oka: "storage_ok (storage_345\<lparr>s_log := s_log storage_345 @ [entry_at 6], s_last := 6\<rparr>)"
    by blast
  from storage_first_last [OF ok, where i = 3] l3
  have okl: "storage_ok (storage_345\<lparr>s_log := [entry_at 4, entry_at 5], s_first := 4\<rparr>)"
    by blast
  from storage_first_last [OF ok, where j = 5] g5
  have okg: "storage_ok (storage_345\<lparr>s_log := [entry_at 3, entry_at 4], s_last := 4\<rparr>)"
    by blast
  from storage_first_last [OF ok0, where e = "entry_at 1"] a0 e1
  have oka0: "storage_ok (storage_empty\<lparr>s_log := [entry_at 1], s_first := 1, s_last := 1\<rparr>)"
    by blast
  from storage_first_last [OF okz] i il have "storage_ok storage_345"
    by blast
  with inv c a oka l5 l3 okl g3 g5 okg i ok0 c0 a0 oka0 show ?thesis
    by (intro conjI)
qed

section \<open>The catch-up phase of replication\<close>












section \<open>The majority match index\<close>

lemma collect_matched_Inr:
  "collect_matched l ns acc = Inr vs \<Longrightarrow>
     vs = acc @ map (match_of l) (filter Voter (map snd ns))"
  by (induction l ns acc rule: collect_matched.induct)
    (auto simp: match_of_def split: if_splits option.splits)

lemma collect_matched_total:
  "\<forall>(k, n) \<in> set ns. Voter n \<and> ID n \<noteq> self_id l \<longrightarrow> flrs l (ID n) \<noteq> None \<Longrightarrow>
     collect_matched l ns acc = Inr (acc @ map (match_of l) (filter Voter (map snd ns)))"
  by (induction l ns acc rule: collect_matched.induct)
    (auto simp: match_of_def split: if_splits option.splits)

lemma collect_matched_cong:
  "self_id l' = self_id l \<Longrightarrow> lastLogIndex l' = lastLogIndex l \<Longrightarrow>
   \<forall>(k, n) \<in> set ns. Voter n \<longrightarrow>
      map_option status_matchIndex (flrs l' (ID n))
      = map_option status_matchIndex (flrs l (ID n)) \<Longrightarrow>
     collect_matched l' ns acc = collect_matched l ns acc"
  by (induction l ns acc rule: collect_matched.induct)
    (auto split: if_splits option.splits)

lemma length_voters_of: "length (voters_of c) = numVoters c"
  by (simp add: voters_of_def numVoters_filter filter_map comp_def case_prod_unfold)

lemma kth_largest_mset: "kth_largest k (mset vs) = sort_decr vs ! (k - 1)"
  by (simp add: kth_largest_def sort_decr_def sorted_list_of_multiset_mset)

lemma majorityMatchIndex_value:
  assumes "collect_matched l (Nodes (Latest (configs l))) [] = Inr vs" and "vs \<noteq> []"
  shows "majorityMatchIndex l = Inr (sort_decr vs ! (length vs div 2))"
proof -
  from assms(2) have "length vs div 2 < length (sort_decr vs)"
    by (simp add: sort_decr_def)
  then show ?thesis
    by (simp add: majorityMatchIndex_def assms(1) Let_def nth_append)
qed

lemma majorityMatchIndex_cong:
  assumes "self_id l' = self_id l" and "lastLogIndex l' = lastLogIndex l"
    and "Latest (configs l') = Latest (configs l)"
    and "\<forall>(k, n) \<in> set (Nodes (Latest (configs l))).
           Voter n \<longrightarrow> map_option status_matchIndex (flrs l' (ID n))
             = map_option status_matchIndex (flrs l (ID n))"
  shows "majorityMatchIndex l' = majorityMatchIndex l"
  unfolding majorityMatchIndex_def assms(3)
  by (simp only: collect_matched_cong [OF assms(1, 2, 4), of "[]"])

text \<open>
  Claim C2. When \<open>Latest\<close> has a voter and every voter other than the leader has a
  replication, \<^verbatim>\<open>majorityMatchIndex\<close> returns the \<open>quorum\<close>-th largest element of the
  multiset that holds, for each voter of \<open>Latest\<close>, the leader's \<open>lastLogIndex\<close> if the
  voter is the leader itself and the voter's \<open>matchIndex\<close> otherwise, with
  \<open>quorum = voters div 2 + 1\<close>; the multiset has one element per voter. The result does
  not depend on the replications of non-voters: two leaders that differ only there get
  the same result.
\<close>

theorem majorityMatchIndex_quorum:
  assumes "\<forall>(k, n) \<in> set (Nodes (Latest (configs l))).
             Voter n \<and> ID n \<noteq> self_id l \<longrightarrow> flrs l (ID n) \<noteq> None"
    and "0 < numVoters (Latest (configs l))"
  shows "majorityMatchIndex l
           = Inr (kth_largest (quorum (Latest (configs l))) (voter_match_indexes l))
    \<and> quorum (Latest (configs l)) = numVoters (Latest (configs l)) div 2 + 1
    \<and> size (voter_match_indexes l) = numVoters (Latest (configs l))
    \<and> (self_id l' = self_id l \<and> lastLogIndex l' = lastLogIndex l
         \<and> Latest (configs l') = Latest (configs l)
         \<and> (\<forall>(k, n) \<in> set (Nodes (Latest (configs l))).
               Voter n \<longrightarrow> flrs l' (ID n) = flrs l (ID n))
       \<longrightarrow> majorityMatchIndex l' = majorityMatchIndex l)"
proof -
  let ?c = "Latest (configs l)"
  let ?vs = "map (match_of l) (voters_of ?c)"
  have c: "collect_matched l (Nodes ?c) [] = Inr ?vs"
    using collect_matched_total [OF assms(1), of "[]"] by (simp add: voters_of_def)
  have n: "length ?vs = numVoters ?c"
    by (simp add: length_voters_of)
  with assms(2) have "?vs \<noteq> []"
    by auto
  from majorityMatchIndex_value [OF c this]
  have "majorityMatchIndex l = Inr (sort_decr ?vs ! (numVoters ?c div 2))"
    by (simp add: length_voters_of)
  moreover have "kth_largest (quorum ?c) (voter_match_indexes l)
      = sort_decr ?vs ! (quorum ?c - 1)"
    unfolding voter_match_indexes_def by (rule kth_largest_mset)
  ultimately
  have 1: "majorityMatchIndex l = Inr (kth_largest (quorum ?c) (voter_match_indexes l))"
    by (simp add: quorum_def)
  have 2: "size (voter_match_indexes l) = numVoters ?c"
    by (simp add: voter_match_indexes_def length_voters_of)
  have 3: "self_id l' = self_id l \<and> lastLogIndex l' = lastLogIndex l
         \<and> Latest (configs l') = Latest (configs l)
         \<and> (\<forall>(k, n) \<in> set (Nodes (Latest (configs l))).
               Voter n \<longrightarrow> flrs l' (ID n) = flrs l (ID n))
       \<longrightarrow> majorityMatchIndex l' = majorityMatchIndex l"
  proof
    assume a: "self_id l' = self_id l \<and> lastLogIndex l' = lastLogIndex l
         \<and> Latest (configs l') = Latest (configs l)
         \<and> (\<forall>(k, n) \<in> set (Nodes (Latest (configs l))).
               Voter n \<longrightarrow> flrs l' (ID n) = flrs l (ID n))"
    then have "\<forall>(k, n) \<in> set (Nodes (Latest (configs l))).
           Voter n \<longrightarrow> map_option status_matchIndex (flrs l' (ID n))
             = map_option status_matchIndex (flrs l (ID n))"
      by auto
    with a show "majorityMatchIndex l' = majorityMatchIndex l"
      by (intro majorityMatchIndex_cong) simp_all
  qed
  from 1 2 3 show ?thesis
    by (simp add: quorum_def)
qed

lemma nodes_ldr_A:
  "Nodes (Latest (configs ldr_A)) = Nodes config_ABCD" "self_id ldr_A = ''A''"
  "lastLogIndex ldr_A = 7"
  "flrs ldr_A = [''B'' \<mapsto> flr_at 5, ''C'' \<mapsto> flr_at 3, ''D'' \<mapsto> flr_at 7]"
  by (simp_all add: ldr_A_def)

theorem majorityMatchIndex_quorum_witness:
  "flrs ldr_A ''B'' \<noteq> None \<and> flrs ldr_A ''C'' \<noteq> None
   \<and> numVoters (Latest (configs ldr_A)) = 3
   \<and> quorum (Latest (configs ldr_A)) = 2
   \<and> voter_match_indexes ldr_A = {#7, 5, 3#}
   \<and> kth_largest 2 {#7, 5, 3#} = 5
   \<and> majorityMatchIndex ldr_A = Inr 5
   \<and> majorityMatchIndex (ldr_A\<lparr>flrs := (flrs ldr_A)(''D'' \<mapsto> flr_at 1)\<rparr>) = Inr 5"
proof -
  have h: "\<forall>(k, n) \<in> set (Nodes (Latest (configs ldr_A))).
       Voter n \<and> ID n \<noteq> self_id ldr_A \<longrightarrow> flrs ldr_A (ID n) \<noteq> None"
    by (simp add: nodes_ldr_A config_ABCD_def)
  have nv: "numVoters (Latest (configs ldr_A)) = 3"
    by (simp add: ldr_A_def config_ABCD_def numVoters_def)
  then have pos: "0 < numVoters (Latest (configs ldr_A))"
    by simp
  have q: "quorum (Latest (configs ldr_A)) = 2"
    by (simp add: quorum_def nv)
  have m: "voter_match_indexes ldr_A = {#7, 5, 3#}"
    by (simp add: voter_match_indexes_def voters_of_def match_of_def nodes_ldr_A
        config_ABCD_def flr_at_def)
  have "sort [7, 5, 3 :: u64] = [3, 5, 7]"
    by (simp add: insort_key.simps)
  then have k: "kth_largest 2 {#7, 5, 3#} = 5"
    using kth_largest_mset [of 2 "[7, 5, 3]"] by (simp add: sort_decr_def)
  note t = majorityMatchIndex_quorum [OF h pos]
  from t have r: "majorityMatchIndex ldr_A = Inr 5"
    by (simp add: q m k)
  have "majorityMatchIndex (ldr_A\<lparr>flrs := (flrs ldr_A)(''D'' \<mapsto> flr_at 1)\<rparr>)
      = majorityMatchIndex ldr_A"
    using t [of "ldr_A\<lparr>flrs := (flrs ldr_A)(''D'' \<mapsto> flr_at 1)\<rparr>"]
    by (simp add: nodes_ldr_A config_ABCD_def)
  with nv q m k r show ?thesis
    by (simp add: nodes_ldr_A)
qed

section \<open>The apply loop of the leader\<close>

lemma apply_frame_refl: "apply_frame l l"
  by (simp add: apply_frame_def)

lemma apply_frame_trans: "apply_frame a b \<Longrightarrow> apply_frame b c \<Longrightarrow> apply_frame a c"
  by (simp add: apply_frame_def)

lemma apply_frame_upd:
  "apply_frame l (l\<lparr>newEntries := a\<rparr>)" "apply_frame l (l\<lparr>lastApplied := b\<rparr>)"
  "apply_frame l (l\<lparr>fsm_taskCh := c\<rparr>)" "apply_frame l (l\<lparr>replies := d\<rparr>)"
  "apply_frame l (l\<lparr>close_sel := e\<rparr>)"
  by (simp_all add: apply_frame_def erase_applied_def)

lemma apply_frame_fields:
  assumes "apply_frame l l'"
  shows "self_id l' = self_id l" "cur_term l' = cur_term l" "state l' = state l"
    "leader l' = leader l" "lastLogIndex l' = lastLogIndex l"
    "lastLogTerm l' = lastLogTerm l" "commitIndex l' = commitIndex l"
    "configs l' = configs l" "storage l' = storage l" "appendErr l' = appendErr l"
    "timer_active l' = timer_active l" "quorumWait l' = quorumWait l"
    "voter l' = voter l" "startIndex l' = startIndex l" "flrs l' = flrs l"
    "transfer_inProgress l' = transfer_inProgress l"
proof -
  from assms have e: "erase_applied l' = erase_applied l"
    by (simp add: apply_frame_def)
  show "self_id l' = self_id l" using arg_cong [OF e, of self_id] by (simp add: erase_applied_def)
  show "cur_term l' = cur_term l" using arg_cong [OF e, of cur_term] by (simp add: erase_applied_def)
  show "state l' = state l" using arg_cong [OF e, of state] by (simp add: erase_applied_def)
  show "leader l' = leader l" using arg_cong [OF e, of leader] by (simp add: erase_applied_def)
  show "lastLogIndex l' = lastLogIndex l" using arg_cong [OF e, of lastLogIndex] by (simp add: erase_applied_def)
  show "lastLogTerm l' = lastLogTerm l" using arg_cong [OF e, of lastLogTerm] by (simp add: erase_applied_def)
  show "commitIndex l' = commitIndex l" using arg_cong [OF e, of commitIndex] by (simp add: erase_applied_def)
  show "configs l' = configs l" using arg_cong [OF e, of configs] by (simp add: erase_applied_def)
  show "storage l' = storage l" using arg_cong [OF e, of storage] by (simp add: erase_applied_def)
  show "appendErr l' = appendErr l" using arg_cong [OF e, of appendErr] by (simp add: erase_applied_def)
  show "timer_active l' = timer_active l" using arg_cong [OF e, of timer_active] by (simp add: erase_applied_def)
  show "quorumWait l' = quorumWait l" using arg_cong [OF e, of quorumWait] by (simp add: erase_applied_def)
  show "voter l' = voter l" using arg_cong [OF e, of voter] by (simp add: erase_applied_def)
  show "startIndex l' = startIndex l" using arg_cong [OF e, of startIndex] by (simp add: erase_applied_def)
  show "flrs l' = flrs l" using arg_cong [OF e, of flrs] by (simp add: erase_applied_def)
  show "transfer_inProgress l' = transfer_inProgress l" using arg_cong [OF e, of transfer_inProgress] by (simp add: erase_applied_def)
qed

lemma select_close_frame:
  "select_close l = (c, l') \<Longrightarrow> apply_frame l l' \<and> lastApplied l' = lastApplied l
     \<and> newEntries l' = newEntries l \<and> fsm_taskCh l' = fsm_taskCh l \<and> replies l' = replies l"
  by (auto simp: select_close_def apply_frame_def erase_applied_def split: list.splits)

lemma send_nonlog_frame:
  "send_nonlog es l = (b, l') \<Longrightarrow> apply_frame l l' \<and> lastApplied l' = lastApplied l"
proof (induction es l arbitrary: b l' rule: send_nonlog.induct)
  case (1 l)
  then show ?case by (auto simp: apply_frame_def erase_applied_def)
next
  case (2 ne rest l)
  show ?case
  proof (cases "index ne = lastApplied l + 1 \<and> (e_typ ne = entryRead \<or> e_typ ne = entryBarrier)")
    case False
    with "2.prems" show ?thesis by (auto simp: apply_frame_def erase_applied_def)
  next
    case t: True
    obtain cl l1 where sc: "select_close (l\<lparr>newEntries := rest\<rparr>) = (cl, l1)"
      by (cases "select_close (l\<lparr>newEntries := rest\<rparr>)")
    note f = select_close_frame [OF sc]
    show ?thesis
    proof (cases cl)
      case True
      with t sc "2.prems" f show ?thesis by (auto simp: apply_frame_def erase_applied_def)
    next
      case False
      with t sc "2.prems"
      have "send_nonlog rest (l1\<lparr>fsm_taskCh := fsm_taskCh l1 @ [ne]\<rparr>) = (b, l')"
        by simp
      from "2.IH" [OF t sc [symmetric] False this] f show ?thesis
        by (simp add: apply_frame_def erase_applied_def)
    qed
  qed
qed

lemma next_entry_frame:
  "next_entry l = Inr (ne, l') \<Longrightarrow> apply_frame l l' \<and> lastApplied l' = lastApplied l"
  by (auto simp: next_entry_def apply_frame_def erase_applied_def
      split: list.splits if_splits sum.splits)

lemma applyEntry_frame: "apply_frame l (applyEntry ne l) \<and> lastApplied (applyEntry ne l) = lastApplied l"
  by (simp add: applyEntry_def apply_frame_def erase_applied_def)

lemma apply_body_cases:
  assumes "apply_body ac l = Some r"
  obtains (ret) l1 where "send_nonlog (newEntries l) l = (True, l1)" "r = Inr l1"
  | (stop) l1 where "send_nonlog (newEntries l) l = (False, l1)"
      "lastApplied l1 + 1 > commitIndex l1" "r = Inr l1"
  | (panic) l1 p where "send_nonlog (newEntries l) l = (False, l1)"
      "\<not> lastApplied l1 + 1 > commitIndex l1" "next_entry l1 = Inl p" "r = Inl p"
  | (step) l1 ne l2 where "send_nonlog (newEntries l) l = (False, l1)"
      "\<not> lastApplied l1 + 1 > commitIndex l1" "next_entry l1 = Inr (ne, l2)"
      "ac ((applyEntry ne l2)\<lparr>lastApplied := lastApplied (applyEntry ne l2) + 1\<rparr>) = Some r"
proof -
  obtain returned l1 where s: "send_nonlog (newEntries l) l = (returned, l1)"
    by (cases "send_nonlog (newEntries l) l")
  show thesis
  proof (cases returned)
    case True
    with assms s have "r = Inr l1" by (simp add: apply_body_def)
    with True s ret show thesis by simp
  next
    case nr: False
    show thesis
    proof (cases "lastApplied l1 + 1 > commitIndex l1")
      case True
      with nr assms s have "r = Inr l1" by (simp add: apply_body_def)
      with True nr s stop show thesis by simp
    next
      case ns: False
      show thesis
      proof (cases "next_entry l1")
        case (Inl p)
        with nr ns assms s have "r = Inl p" by (simp add: apply_body_def)
        with Inl nr ns s panic show thesis by simp
      next
        case (Inr x)
        obtain ne l2 where x: "x = (ne, l2)" by (cases x)
        with Inr nr ns assms s
        have "ac ((applyEntry ne l2)\<lparr>lastApplied := lastApplied (applyEntry ne l2) + 1\<rparr>) = Some r"
          by (simp add: apply_body_def Let_def)
        with Inr x nr ns s step show thesis by simp
      qed
    qed
  qed
qed

lemma applyCommitted_unfold: "applyCommitted l = apply_body applyCommitted l"
  unfolding apply_body_def by (rule applyCommitted.simps)

lemma applyCommitted_frame_raw:
  "applyCommitted l = Some r \<Longrightarrow> (\<forall>l'. r = Inr l' \<longrightarrow> apply_frame l l')"
proof (induction rule: applyCommitted.raw_induct [rotated 1, consumes 1])
  case (1 ac l r)
  from 1(2) have "apply_body ac l = Some r"
    by (simp only: apply_body_def)
  then show ?case
  proof (cases rule: apply_body_cases)
    case (ret l1)
    with send_nonlog_frame show ?thesis by blast
  next
    case (stop l1)
    with send_nonlog_frame show ?thesis by blast
  next
    case (panic l1 p)
    then show ?thesis by simp
  next
    case (step l1 ne l2)
    from 1(1) [OF step(4)] next_entry_frame [OF step(3)] applyEntry_frame [of l2 ne]
      send_nonlog_frame [OF step(1)]
    show ?thesis
      by (simp add: apply_frame_def erase_applied_def)
  qed
qed

lemma applyCommitted_frame:
  "applyCommitted l = Some (Inr l') \<Longrightarrow> apply_frame l l'"
  using applyCommitted_frame_raw by blast
lemma setCommitIndex_fields:
  "commitIndex (setCommitIndex n l) = n" "self_id (setCommitIndex n l) = self_id l"
  "lastLogIndex (setCommitIndex n l) = lastLogIndex l"
  "lastLogTerm (setCommitIndex n l) = lastLogTerm l"
  "Latest (configs (setCommitIndex n l)) = Latest (configs l)"
  "flrs (setCommitIndex n l) = flrs l" "startIndex (setCommitIndex n l) = startIndex l"
  "voter (setCommitIndex n l) = voter l" "storage (setCommitIndex n l) = storage l"
  "lastApplied (setCommitIndex n l) = lastApplied l"
  by (simp_all add: setCommitIndex_def commitConfig_def Let_def)

lemma post_update_fields:
  "commitIndex (post_update b l) = commitIndex l" "self_id (post_update b l) = self_id l"
  "lastLogIndex (post_update b l) = lastLogIndex l"
  "lastLogTerm (post_update b l) = lastLogTerm l"
  "configs (post_update b l) = configs l"
  "startIndex (post_update b l) = startIndex l"
  "voter (post_update b l) = voter l" "storage (post_update b l) = storage l"
  "lastApplied (post_update b l) = lastApplied l"
  "map_option status_matchIndex (flrs (post_update b l) i)
     = map_option status_matchIndex (flrs l i)"
  by (simp_all add: post_update_def Let_def option.map_comp comp_def)

lemma onMajorityCommit_closed:
  assumes "majorityMatchIndex l = Inr n" and "\<not> (n > commitIndex l \<and> n \<ge> startIndex l)"
  shows "onMajorityCommit l = Some (Inr l)"
  using assms by (subst onMajorityCommit.simps) auto

lemma onMajorityCommit_open:
  assumes m: "majorityMatchIndex l = Inr n" and g: "n > commitIndex l \<and> n \<ge> startIndex l"
  shows "onMajorityCommit l =
     (case applyCommitted (setCommitIndex n l) of
        None \<Rightarrow> None
      | Some (Inl p) \<Rightarrow> Some (Inl p)
      | Some (Inr l1) \<Rightarrow> Some (Inr (post_update False l1)))"
proof (cases "applyCommitted (setCommitIndex n l)")
  case None
  with m g show ?thesis by (subst onMajorityCommit.simps) simp
next
  case (Some r)
  show ?thesis
  proof (cases r)
    case (Inl p)
    with Some m g show ?thesis by (subst onMajorityCommit.simps) simp
  next
    case (Inr l1)
    let ?l2 = "post_update False l1"
    note f = apply_frame_fields [OF applyCommitted_frame [OF Some [unfolded Inr]]]
    have "majorityMatchIndex ?l2 = majorityMatchIndex l"
      by (rule majorityMatchIndex_cong)
        (simp_all add: post_update_fields f setCommitIndex_fields)
    with m have m2: "majorityMatchIndex ?l2 = Inr n" by simp
    have "commitIndex ?l2 = n"
      by (simp add: post_update_fields f setCommitIndex_fields)
    then have "onMajorityCommit ?l2 = Some (Inr ?l2)"
      by (intro onMajorityCommit_closed [OF m2]) simp
    with Some Inr m g show ?thesis
      by (subst onMajorityCommit.simps) (simp add: Let_def)
  qed
qed
lemma succ_le_self: "(ci :: u64) + 1 \<le> ci \<Longrightarrow> ci + 1 = 0"
  by uint_arith

lemma apply_measure:
  fixes la ci :: u64
  assumes "la \<le> ci" and "\<not> la + 1 > ci" and "ci + 1 \<noteq> 0"
  shows "la + 1 \<le> ci \<and> unat (ci - (la + 1)) < unat (ci - la)"
proof -
  from assms(2) have 1: "la + 1 \<le> ci" by simp
  with assms(3) succ_le_self have "la \<noteq> ci" by blast
  then have "ci - la \<noteq> 0" by simp
  then have "unat (ci - la - 1) < unat (ci - la)"
    by (rule measure_unat)
  moreover have "ci - (la + 1) = ci - la - 1" by (simp add: algebra_simps)
  ultimately have "unat (ci - (la + 1)) < unat (ci - la)" by (simp only:)
  with 1 show ?thesis by (rule conjI)
qed
lemma applyCommitted_returns:
  "lastApplied l \<le> commitIndex l \<Longrightarrow> commitIndex l + 1 \<noteq> 0 \<Longrightarrow>
     \<exists>r. applyCommitted l = Some r"
proof (induction "unat (commitIndex l - lastApplied l)" arbitrary: l rule: less_induct)
  case less
  obtain returned l1 where s: "send_nonlog (newEntries l) l = (returned, l1)"
    by (cases "send_nonlog (newEntries l) l")
  note f1 = send_nonlog_frame [OF s]
  note c1 = apply_frame_fields(7) [OF f1 [THEN conjunct1]]
  show ?case
  proof (cases "returned \<or> lastApplied l1 + 1 > commitIndex l1")
    case True
    with s show ?thesis
      by (subst applyCommitted_unfold) (auto simp: apply_body_def)
  next
    case False
    show ?thesis
    proof (cases "next_entry l1")
      case (Inl p)
      with False s show ?thesis
        by (subst applyCommitted_unfold) (auto simp: apply_body_def)
    next
      case (Inr x)
      obtain ne l2 where x: "x = (ne, l2)" by (cases x)
      let ?l3 = "(applyEntry ne l2)\<lparr>lastApplied := lastApplied (applyEntry ne l2) + 1\<rparr>"
      note f2 = next_entry_frame [OF Inr [unfolded x]]
      note f3 = applyEntry_frame [of l2 ne]
      have la: "lastApplied ?l3 = lastApplied l + 1"
        using f1 f2 f3 by simp
      have ci: "commitIndex ?l3 = commitIndex l"
        using c1 apply_frame_fields(7) [OF f2 [THEN conjunct1]]
          apply_frame_fields(7) [OF f3 [THEN conjunct1]]
        by simp
      from False f1 c1 have n: "\<not> lastApplied l + 1 > commitIndex l"
        by simp
      note a = apply_measure [OF less.prems(1) n less.prems(2)]
      have "\<exists>r. applyCommitted ?l3 = Some r"
        by (rule less.hyps) (use la ci a less.prems in simp_all)
      with False s Inr x show ?thesis
        by (subst applyCommitted_unfold) (auto simp: apply_body_def Let_def)
    qed
  qed
qed
lemma select_close_held:
  "select_close l = (c, l') \<Longrightarrow> held l' = held l"
  by (auto simp: select_close_def held_def split: list.splits)

lemma send_nonlog_held:
  "send_nonlog es l = (b, l') \<Longrightarrow>
     set es \<union> set (fsm_taskCh l) \<union> fst ` set (replies l) \<subseteq> held l'"
proof (induction es l arbitrary: b l' rule: send_nonlog.induct)
  case (1 l)
  then show ?case by (auto simp: held_def)
next
  case (2 ne rest l)
  show ?case
  proof (cases "index ne = lastApplied l + 1 \<and> (e_typ ne = entryRead \<or> e_typ ne = entryBarrier)")
    case False
    with "2.prems" show ?thesis by (auto simp: held_def)
  next
    case t: True
    obtain cl l1 where sc: "select_close (l\<lparr>newEntries := rest\<rparr>) = (cl, l1)"
      by (cases "select_close (l\<lparr>newEntries := rest\<rparr>)")
    note f = select_close_frame [OF sc]
    show ?thesis
    proof (cases cl)
      case True
      with t sc "2.prems" f show ?thesis by (auto simp: held_def)
    next
      case False
      with t sc "2.prems"
      have "send_nonlog rest (l1\<lparr>fsm_taskCh := fsm_taskCh l1 @ [ne]\<rparr>) = (b, l')"
        by simp
      from "2.IH" [OF t sc [symmetric] False this] f show ?thesis
        by auto
    qed
  qed
qed

lemma send_nonlog_held':
  "send_nonlog (newEntries l) l = (b, l') \<Longrightarrow> held l \<subseteq> held l'"
  using send_nonlog_held [of "newEntries l" l b l'] by (simp add: held_def)

lemma next_entry_held:
  assumes "next_entry l = Inr (ne, l2)" and "x \<in> held l"
    and "e_typ x = entryRead \<or> e_typ x = entryBarrier"
  shows "x \<in> held (applyEntry ne l2)"
  using assms
  by (auto simp: next_entry_def applyEntry_def held_def split: list.splits if_splits sum.splits)

lemma held_lastApplied: "held (l\<lparr>lastApplied := a\<rparr>) = held l"
  by (simp add: held_def)

lemma applyCommitted_held_raw:
  "applyCommitted l = Some r \<Longrightarrow>
     (\<forall>l' x. r = Inr l' \<longrightarrow> x \<in> held l \<longrightarrow> (e_typ x = entryRead \<or> e_typ x = entryBarrier)
        \<longrightarrow> x \<in> held l')"
proof (induction rule: applyCommitted.raw_induct [rotated 1, consumes 1])
  case (1 ac l r)
  from 1(2) have "apply_body ac l = Some r"
    by (simp only: apply_body_def)
  then show ?case
  proof (cases rule: apply_body_cases)
    case (ret l1)
    with send_nonlog_held' show ?thesis by blast
  next
    case (stop l1)
    with send_nonlog_held' show ?thesis by blast
  next
    case (panic l1 p)
    then show ?thesis by simp
  next
    case (step l1 ne l2)
    show ?thesis
    proof (intro allI impI)
      fix l' x
      assume r: "r = Inr l'" and x: "x \<in> held l"
        and t: "e_typ x = entryRead \<or> e_typ x = entryBarrier"
      from x send_nonlog_held' [OF step(1)] have "x \<in> held l1" by blast
      from next_entry_held [OF step(3) this t]
      have "x \<in> held ((applyEntry ne l2)\<lparr>lastApplied := lastApplied (applyEntry ne l2) + 1\<rparr>)"
        by (simp add: held_lastApplied)
      with 1(1) [OF step(4)] r t show "x \<in> held l'" by blast
    qed
  qed
qed
section \<open>Commit advancement\<close>

lemma onMajorityCommit_commitIndex:
  assumes m: "majorityMatchIndex l = Inr n" and r: "onMajorityCommit l = Some (Inr l')"
  shows "commitIndex l' = (if n > commitIndex l \<and> n \<ge> startIndex l then n else commitIndex l)"
    and "startIndex l' = startIndex l"
proof -
  show "commitIndex l' = (if n > commitIndex l \<and> n \<ge> startIndex l then n else commitIndex l)"
  proof (cases "n > commitIndex l \<and> n \<ge> startIndex l")
    case False
    with onMajorityCommit_closed [OF m] r have "l' = l" by simp
    with False show ?thesis by auto
  next
    case True
    from r onMajorityCommit_open [OF m True] obtain l1
      where a: "applyCommitted (setCommitIndex n l) = Some (Inr l1)"
        and l': "l' = post_update False l1"
      by (auto split: option.splits sum.splits)
    from apply_frame_fields(7) [OF applyCommitted_frame [OF a]] l' True show ?thesis
      by (simp add: post_update_fields setCommitIndex_fields)
  qed
  show "startIndex l' = startIndex l"
  proof (cases "n > commitIndex l \<and> n \<ge> startIndex l")
    case False
    with onMajorityCommit_closed [OF m] r show ?thesis by simp
  next
    case True
    from r onMajorityCommit_open [OF m True] obtain l1
      where a: "applyCommitted (setCommitIndex n l) = Some (Inr l1)"
        and l': "l' = post_update False l1"
      by (auto split: option.splits sum.splits)
    from apply_frame_fields(14) [OF applyCommitted_frame [OF a]] l' show ?thesis
      by (simp add: post_update_fields setCommitIndex_fields)
  qed
qed

lemma onMajorityCommit_returns:
  assumes m: "majorityMatchIndex l = Inr n" and "lastApplied l \<le> commitIndex l"
    and "n + 1 \<noteq> 0"
  shows "\<exists>r. onMajorityCommit l = Some r"
proof (cases "n > commitIndex l \<and> n \<ge> startIndex l")
  case False
  with onMajorityCommit_closed [OF m] show ?thesis by simp
next
  case True
  with assms(2) have "lastApplied l \<le> n"
    by auto
  then have "lastApplied (setCommitIndex n l) \<le> commitIndex (setCommitIndex n l)"
    by (simp add: setCommitIndex_fields)
  with assms(3) have "\<exists>r. applyCommitted (setCommitIndex n l) = Some r"
    by (intro applyCommitted_returns) (simp_all add: setCommitIndex_fields)
  with onMajorityCommit_open [OF m True] show ?thesis
    by (auto split: sum.splits)
qed

text \<open>
  Claim C1. Let \<open>N\<close> be what \<^verbatim>\<open>majorityMatchIndex\<close> returns. When \<open>N > commitIndex\<close> and
  \<open>N \<ge> startIndex\<close> do not both hold, \<^verbatim>\<open>onMajorityCommit\<close> returns and changes nothing.
  Whenever it returns, \<open>commitIndex\<close> is \<open>N\<close> if both hold and is unchanged otherwise,
  \<open>startIndex\<close> is unchanged, and a changed \<open>commitIndex\<close> is not below \<open>startIndex\<close>.
  It returns or panics (no endless loop) when \<open>lastApplied \<le> commitIndex\<close> and \<open>N\<close> is
  not the largest \<^verbatim>\<open>uint64\<close>.
\<close>

theorem commit_gated_by_startIndex:
  assumes "majorityMatchIndex l = Inr n"
  shows "(\<not> (n > commitIndex l \<and> n \<ge> startIndex l) \<longrightarrow> onMajorityCommit l = Some (Inr l))
    \<and> (onMajorityCommit l = Some (Inr l') \<longrightarrow>
         commitIndex l'
           = (if n > commitIndex l \<and> n \<ge> startIndex l then n else commitIndex l)
         \<and> startIndex l' = startIndex l
         \<and> (commitIndex l' \<noteq> commitIndex l \<longrightarrow> startIndex l \<le> commitIndex l'))
    \<and> (lastApplied l \<le> commitIndex l \<and> n + 1 \<noteq> 0 \<longrightarrow> (\<exists>r. onMajorityCommit l = Some r))"
proof -
  have 1: "\<not> (n > commitIndex l \<and> n \<ge> startIndex l) \<longrightarrow> onMajorityCommit l = Some (Inr l)"
    using onMajorityCommit_closed [OF assms] by blast
  have 2: "onMajorityCommit l = Some (Inr l') \<longrightarrow>
         commitIndex l'
           = (if n > commitIndex l \<and> n \<ge> startIndex l then n else commitIndex l)
         \<and> startIndex l' = startIndex l
         \<and> (commitIndex l' \<noteq> commitIndex l \<longrightarrow> startIndex l \<le> commitIndex l')"
    using onMajorityCommit_commitIndex [OF assms, of l'] by (auto split: if_splits)
  have 3: "lastApplied l \<le> commitIndex l \<and> n + 1 \<noteq> 0 \<longrightarrow> (\<exists>r. onMajorityCommit l = Some r)"
    using onMajorityCommit_returns [OF assms] by blast
  from 1 2 3 show ?thesis by blast
qed

lemma majorityMatchIndex_ldr_A: "majorityMatchIndex ldr_A = Inr 5"
proof -
  have "sort [7, 5, 3 :: u64] = [3, 5, 7]"
    by (simp add: insort_key.simps)
  then show ?thesis
    by (simp add: majorityMatchIndex_def ldr_A_def config_ABCD_def flr_at_def sort_decr_def
        Let_def)
qed

lemma setCommitIndex_ldr_A: "setCommitIndex 5 ldr_A = ldr_A\<lparr>commitIndex := 5\<rparr>"
  by (simp add: setCommitIndex_def ldr_A_def IsCommitted_def Let_def)

lemma applyCommitted_ldr_A:
  "applyCommitted (setCommitIndex 5 ldr_A)
     = Some (Inr (ldr_A\<lparr>commitIndex := 5, lastApplied := 5\<rparr>))"
proof -
  have "applyCommitted (ldr_A\<lparr>commitIndex := 5\<rparr>)
      = applyCommitted (ldr_A\<lparr>commitIndex := 5, lastApplied := 5\<rparr>)"
    by (subst applyCommitted_unfold)
      (simp add: apply_body_def ldr_A_def next_entry_def getEntry_def log_Get_def
        storage_37_def applyEntry_def entry_at_def Let_def entry.defs)
  also have "\<dots> = Some (Inr (ldr_A\<lparr>commitIndex := 5, lastApplied := 5\<rparr>))"
    by (subst applyCommitted_unfold) (simp add: apply_body_def ldr_A_def)
  finally show ?thesis
    by (simp only: setCommitIndex_ldr_A)
qed

lemma majorityMatchIndex_ldr_A_later:
  "majorityMatchIndex (ldr_A\<lparr>startIndex := 6\<rparr>) = Inr 5"
  using majorityMatchIndex_cong [of "ldr_A\<lparr>startIndex := 6\<rparr>" ldr_A]
  by (simp add: majorityMatchIndex_ldr_A)

theorem commit_gated_by_startIndex_witness:
  "majorityMatchIndex ldr_A = Inr 5 \<and> commitIndex ldr_A = 4 \<and> startIndex ldr_A = 5
   \<and> lastApplied ldr_A = 4
   \<and> onMajorityCommit ldr_A
       = Some (Inr (post_update False (ldr_A\<lparr>commitIndex := 5, lastApplied := 5\<rparr>)))
   \<and> commitIndex (post_update False (ldr_A\<lparr>commitIndex := 5, lastApplied := 5\<rparr>)) = 5
   \<and> majorityMatchIndex (ldr_A\<lparr>startIndex := 6\<rparr>) = Inr 5
   \<and> onMajorityCommit (ldr_A\<lparr>startIndex := 6\<rparr>) = Some (Inr (ldr_A\<lparr>startIndex := 6\<rparr>))"
proof -
  let ?l' = "post_update False (ldr_A\<lparr>commitIndex := 5, lastApplied := 5\<rparr>)"
  have f: "commitIndex ldr_A = 4" "startIndex ldr_A = 5" "lastApplied ldr_A = 4"
    by (simp_all add: ldr_A_def)
  then have g: "5 > commitIndex ldr_A \<and> 5 \<ge> startIndex ldr_A"
    by simp
  have r: "onMajorityCommit ldr_A = Some (Inr ?l')"
    using onMajorityCommit_open [OF majorityMatchIndex_ldr_A g]
    by (simp add: applyCommitted_ldr_A)
  from commit_gated_by_startIndex [OF majorityMatchIndex_ldr_A, of ?l'] r g
  have c: "commitIndex ?l' = 5"
    by simp
  have "\<not> (5 > commitIndex (ldr_A\<lparr>startIndex := 6\<rparr>) \<and> 5 \<ge> startIndex (ldr_A\<lparr>startIndex := 6\<rparr>))"
    by simp
  with commit_gated_by_startIndex [OF majorityMatchIndex_ldr_A_later]
  have "onMajorityCommit (ldr_A\<lparr>startIndex := 6\<rparr>) = Some (Inr (ldr_A\<lparr>startIndex := 6\<rparr>))"
    by blast
  with majorityMatchIndex_ldr_A f r c majorityMatchIndex_ldr_A_later show ?thesis
    by simp
qed

section \<open>Storing entries that are not log entries\<close>

lemma storeEntry_non_log_eq:
  assumes "e_typ ne = entryRead \<or> e_typ ne = entryBarrier"
  shows "storeEntry ne l =
     (case applyCommitted
        (l\<lparr>newEntries := newEntries l @ [ne\<lparr>index := lastLogIndex l + 1, e_term := cur_term l\<rparr>]\<rparr>) of
        None \<Rightarrow> None
      | Some (Inl p) \<Rightarrow> Some (Inl p)
      | Some (Inr l2) \<Rightarrow> Some (Inr (None, l2)))"
  using assms by (simp add: storeEntry_def Let_def)

lemma storeEntry_non_log_frame:
  assumes t: "e_typ ne = entryRead \<or> e_typ ne = entryBarrier"
    and r: "storeEntry ne l = Some (Inr (err, l'))"
  shows "err = None" "storage l' = storage l" "lastLogIndex l' = lastLogIndex l"
    "lastLogTerm l' = lastLogTerm l"
    "ne\<lparr>index := lastLogIndex l + 1, e_term := cur_term l\<rparr> \<in> held l'"
proof -
  let ?ne = "ne\<lparr>index := lastLogIndex l + 1, e_term := cur_term l\<rparr>"
  let ?l1 = "l\<lparr>newEntries := newEntries l @ [?ne]\<rparr>"
  from r storeEntry_non_log_eq [OF t, of l]
  have a: "applyCommitted ?l1 = Some (Inr l')" and e: "err = None"
    by (auto split: option.splits sum.splits)
  show "err = None" by (rule e)
  note f = apply_frame_fields [OF applyCommitted_frame [OF a]]
  from f(9) show "storage l' = storage l" by simp
  from f(5) show "lastLogIndex l' = lastLogIndex l" by simp
  from f(6) show "lastLogTerm l' = lastLogTerm l" by simp
  have "?ne \<in> held ?l1" by (simp add: held_def)
  moreover from t have "e_typ ?ne = entryRead \<or> e_typ ?ne = entryBarrier" by simp
  ultimately show "?ne \<in> held l'"
    using applyCommitted_held_raw [OF a] by blast
qed

lemma storeEntry_non_log_returns:
  assumes t: "e_typ ne = entryRead \<or> e_typ ne = entryBarrier"
    and "lastApplied l \<le> commitIndex l" and "commitIndex l + 1 \<noteq> 0"
  shows "\<exists>r. storeEntry ne l = Some r"
proof -
  let ?l1 = "l\<lparr>newEntries := newEntries l @ [ne\<lparr>index := lastLogIndex l + 1, e_term := cur_term l\<rparr>]\<rparr>"
  from assms(2, 3) have "\<exists>r. applyCommitted ?l1 = Some r"
    by (intro applyCommitted_returns) simp_all
  then show ?thesis
    unfolding storeEntry_non_log_eq [OF t] by (auto split: sum.splits)
qed

text \<open>
  Claim C3. \<^verbatim>\<open>storeEntry\<close> of a read or a barrier gives the entry the index
  \<open>lastLogIndex + 1\<close> and the current term, appends it to \<open>newEntries\<close> and runs the apply
  loop, nothing else. When it returns, it returns no error, the storage (the durable log
  with its \<open>first\<close> and \<open>last\<close>), \<open>lastLogIndex\<close> and \<open>lastLogTerm\<close> are what they were,
  and the entry is in the queue, or was sent to the state machine, or was replied to
  (the server closing). It returns or panics, without looping, when
  \<open>lastApplied \<le> commitIndex\<close> and \<open>commitIndex\<close> is not the largest \<^verbatim>\<open>uint64\<close>. So a
  \<^verbatim>\<open>storeEntry\<close> that changes the storage stored a no-op, a command or a configuration.
\<close>

theorem storeEntry_non_log:
  "(e_typ ne = entryRead \<or> e_typ ne = entryBarrier \<longrightarrow>
      (storeEntry ne l = Some (Inr (err, l')) \<longrightarrow>
         err = None \<and> storage l' = storage l \<and> lastLogIndex l' = lastLogIndex l
         \<and> lastLogTerm l' = lastLogTerm l
         \<and> ne\<lparr>index := lastLogIndex l + 1, e_term := cur_term l\<rparr> \<in> held l')
      \<and> storeEntry ne l =
          (case applyCommitted
             (l\<lparr>newEntries := newEntries l
                   @ [ne\<lparr>index := lastLogIndex l + 1, e_term := cur_term l\<rparr>]\<rparr>) of
             None \<Rightarrow> None
           | Some (Inl p) \<Rightarrow> Some (Inl p)
           | Some (Inr l2) \<Rightarrow> Some (Inr (None, l2)))
      \<and> (lastApplied l \<le> commitIndex l \<and> commitIndex l + 1 \<noteq> 0 \<longrightarrow>
           (\<exists>r. storeEntry ne l = Some r)))
   \<and> (storeEntry ne l = Some (Inr (err, l')) \<and> storage l' \<noteq> storage l \<longrightarrow>
        e_typ ne = entryNop \<or> e_typ ne = entryUpdate \<or> e_typ ne = entryConfig)"
proof -
  have 1: "e_typ ne = entryRead \<or> e_typ ne = entryBarrier \<longrightarrow>
      (storeEntry ne l = Some (Inr (err, l')) \<longrightarrow>
         err = None \<and> storage l' = storage l \<and> lastLogIndex l' = lastLogIndex l
         \<and> lastLogTerm l' = lastLogTerm l
         \<and> ne\<lparr>index := lastLogIndex l + 1, e_term := cur_term l\<rparr> \<in> held l')"
    using storeEntry_non_log_frame [of ne l err l'] by blast
  have 2: "e_typ ne = entryRead \<or> e_typ ne = entryBarrier \<longrightarrow>
      storeEntry ne l =
          (case applyCommitted
             (l\<lparr>newEntries := newEntries l
                   @ [ne\<lparr>index := lastLogIndex l + 1, e_term := cur_term l\<rparr>]\<rparr>) of
             None \<Rightarrow> None
           | Some (Inl p) \<Rightarrow> Some (Inl p)
           | Some (Inr l2) \<Rightarrow> Some (Inr (None, l2)))"
    using storeEntry_non_log_eq [of ne l] by blast
  have 3: "e_typ ne = entryRead \<or> e_typ ne = entryBarrier \<longrightarrow>
      (lastApplied l \<le> commitIndex l \<and> commitIndex l + 1 \<noteq> 0 \<longrightarrow>
           (\<exists>r. storeEntry ne l = Some r))"
    using storeEntry_non_log_returns [of ne l] by blast
  have 4: "storeEntry ne l = Some (Inr (err, l')) \<and> storage l' \<noteq> storage l \<longrightarrow>
        e_typ ne = entryNop \<or> e_typ ne = entryUpdate \<or> e_typ ne = entryConfig"
    using storeEntry_non_log_frame(2) [of ne l err l'] by (cases "e_typ ne") auto
  from 1 2 3 4 show ?thesis by blast
qed

lemma storeEntry_read_queued:
  "storeEntry read_entry ldr_A
     = Some (Inr (None, ldr_A\<lparr>newEntries := [read_entry\<lparr>index := 8, e_term := 2\<rparr>]\<rparr>))"
proof -
  have "applyCommitted (ldr_A\<lparr>newEntries := [read_entry\<lparr>index := 8, e_term := 2\<rparr>]\<rparr>)
      = Some (Inr (ldr_A\<lparr>newEntries := [read_entry\<lparr>index := 8, e_term := 2\<rparr>]\<rparr>))"
    by (subst applyCommitted_unfold) (simp add: apply_body_def ldr_A_def read_entry_def)
  then show ?thesis
    by (simp add: storeEntry_def Let_def read_entry_def ldr_A_def)
qed

lemma storeEntry_read_served:
  "storeEntry read_entry (ldr_A\<lparr>commitIndex := 7, lastApplied := 7\<rparr>)
     = Some (Inr (None, ldr_A\<lparr>commitIndex := 7, lastApplied := 7,
         fsm_taskCh := [read_entry\<lparr>index := 8, e_term := 2\<rparr>]\<rparr>))"
proof -
  have "applyCommitted (ldr_A\<lparr>commitIndex := 7, lastApplied := 7,
        newEntries := [read_entry\<lparr>index := 8, e_term := 2\<rparr>]\<rparr>)
      = Some (Inr (ldr_A\<lparr>commitIndex := 7, lastApplied := 7,
         fsm_taskCh := [read_entry\<lparr>index := 8, e_term := 2\<rparr>]\<rparr>))"
    by (subst applyCommitted_unfold)
      (simp add: apply_body_def ldr_A_def read_entry_def select_close_def)
  then show ?thesis
    by (simp add: storeEntry_def Let_def read_entry_def ldr_A_def)
qed
lemma storeEntry_update_stored:
  "\<exists>l'. storeEntry update_entry (ldr_A\<lparr>commitIndex := 5, lastApplied := 5\<rparr>)
         = Some (Inr (None, l'))
     \<and> s_log (storage l') = s_log storage_37 @ [entry.truncate (update_entry\<lparr>index := 8, e_term := 2\<rparr>)]
     \<and> lastLogIndex l' = 8"
proof -
  let ?l = "ldr_A\<lparr>commitIndex := 5, lastApplied := 5\<rparr>"
  let ?e = "entry.truncate (update_entry\<lparr>index := 8, e_term := 2\<rparr>)"
  let ?l2 = "?l\<lparr>newEntries := [update_entry\<lparr>index := 8, e_term := 2\<rparr>],
     storage := storage_37\<lparr>s_log := s_log storage_37 @ [?e], s_last := 8\<rparr>,
     lastLogIndex := 8, lastLogTerm := 2\<rparr>"
  have a: "appendEntry (?l\<lparr>newEntries := [update_entry\<lparr>index := 8, e_term := 2\<rparr>]\<rparr>) ?e = Inr ?l2"
    by (simp add: appendEntry_def storage_append_def ldr_A_def storage_37_def update_entry_def
        entry.defs)
  have "sort [8, 5, 3 :: u64] = [3, 5, 8]"
    by (simp add: insort_key.simps)
  then have m: "majorityMatchIndex (post_update False ?l2) = Inr 5"
    by (simp add: majorityMatchIndex_def post_update_def ldr_A_def config_ABCD_def flr_at_def
        sort_decr_def Let_def)
  have "\<not> (5 > commitIndex (post_update False ?l2) \<and> 5 \<ge> startIndex (post_update False ?l2))"
    by (simp add: post_update_fields)
  from onMajorityCommit_closed [OF m this]
  have n: "notifyFlr False ?l2 = Some (Inr (post_update False ?l2))"
    by (simp add: notifyFlr_def Let_def post_update_fields ldr_A_def)
  have "storeEntry update_entry ?l = Some (Inr (None, post_update False ?l2))"
    using a n
    by (simp add: storeEntry_def Let_def update_entry_def ldr_A_def)
  then show ?thesis
    by (simp add: post_update_fields)
qed
theorem storeEntry_non_log_witness:
  "e_typ read_entry = entryRead
   \<and> lastApplied ldr_A \<le> commitIndex ldr_A \<and> commitIndex ldr_A + 1 \<noteq> 0
   \<and> storeEntry read_entry ldr_A
       = Some (Inr (None, ldr_A\<lparr>newEntries := [read_entry\<lparr>index := 8, e_term := 2\<rparr>]\<rparr>))
   \<and> storage (ldr_A\<lparr>newEntries := [read_entry\<lparr>index := 8, e_term := 2\<rparr>]\<rparr>) = storage ldr_A
   \<and> lastLogIndex (ldr_A\<lparr>newEntries := [read_entry\<lparr>index := 8, e_term := 2\<rparr>]\<rparr>)
       = lastLogIndex ldr_A
   \<and> read_entry\<lparr>index := lastLogIndex ldr_A + 1, e_term := cur_term ldr_A\<rparr>
       \<in> held (ldr_A\<lparr>newEntries := [read_entry\<lparr>index := 8, e_term := 2\<rparr>]\<rparr>)
   \<and> storeEntry read_entry (ldr_A\<lparr>commitIndex := 7, lastApplied := 7\<rparr>)
       = Some (Inr (None, ldr_A\<lparr>commitIndex := 7, lastApplied := 7,
           fsm_taskCh := [read_entry\<lparr>index := 8, e_term := 2\<rparr>]\<rparr>))
   \<and> (\<exists>l'. storeEntry update_entry (ldr_A\<lparr>commitIndex := 5, lastApplied := 5\<rparr>)
           = Some (Inr (None, l'))
         \<and> storage l' \<noteq> storage (ldr_A\<lparr>commitIndex := 5, lastApplied := 5\<rparr>))
   \<and> e_typ update_entry = entryUpdate"
proof -
  let ?q = "ldr_A\<lparr>newEntries := [read_entry\<lparr>index := 8, e_term := 2\<rparr>]\<rparr>"
  have t: "e_typ read_entry = entryRead" and u: "e_typ update_entry = entryUpdate"
    by (simp_all add: read_entry_def update_entry_def)
  have i: "lastApplied ldr_A \<le> commitIndex ldr_A \<and> commitIndex ldr_A + 1 \<noteq> 0"
    by (simp add: ldr_A_def)
  from storeEntry_non_log [of read_entry ldr_A None ?q] t storeEntry_read_queued
  have f: "storage ?q = storage ldr_A \<and> lastLogIndex ?q = lastLogIndex ldr_A
     \<and> read_entry\<lparr>index := lastLogIndex ldr_A + 1, e_term := cur_term ldr_A\<rparr> \<in> held ?q"
    by simp
  from storeEntry_update_stored obtain l'
    where s: "storeEntry update_entry (ldr_A\<lparr>commitIndex := 5, lastApplied := 5\<rparr>)
           = Some (Inr (None, l'))"
      and g: "s_log (storage l') = s_log storage_37
           @ [entry.truncate (update_entry\<lparr>index := 8, e_term := 2\<rparr>)]"
    by blast
  from g have "storage l' \<noteq> storage (ldr_A\<lparr>commitIndex := 5, lastApplied := 5\<rparr>)"
    by (auto simp: ldr_A_def)
  with s have "\<exists>l'. storeEntry update_entry (ldr_A\<lparr>commitIndex := 5, lastApplied := 5\<rparr>)
           = Some (Inr (None, l'))
         \<and> storage l' \<noteq> storage (ldr_A\<lparr>commitIndex := 5, lastApplied := 5\<rparr>)"
    by blast
  with t u i f storeEntry_read_queued storeEntry_read_served show ?thesis
    by (intro conjI) simp_all
qed
section \<open>The lease check and the quorum check\<close>

lemma time_Sub_less:
  assumes "0 \<le> sint (w :: duration)"
  shows "(time_Sub t u < sint w) = (t - u < sint w)"
proof -
  have "sint w < 2 ^ 63"
    using sint_lt [of w] by simp
  with assms show ?thesis
    by (auto simp: time_Sub_def Let_def maxDuration_def minDuration_def)
qed

lemma count_reachable_eq:
  assumes "0 \<le> sint (leaseTimeout ldr)"
    and "\<forall>m \<in> set ms. addr m \<noteq> ls_addr ldr \<longrightarrow> repls ldr (addr m) \<noteq> None"
  shows "count_reachable ldr now ms k = Inr (k + length (filter (within_lease ldr now) ms))"
  using assms(2)
proof (induction ms arbitrary: k)
  case Nil
  then show ?case by simp
next
  case (Cons m ms)
  then show ?case
    by (auto simp: within_lease_def IsZero_def time_Sub_less [OF assms(1)]
        split: option.splits)
qed

lemma count_quorum_eq:
  assumes "\<forall>(i, n) \<in> set ns. Voter n \<and> i \<noteq> self_id l \<longrightarrow> flrs l i \<noteq> None"
  shows "count_quorum l ns v k
     = Inr (v + length (filter (Voter \<circ> snd) ns), k + length (filter (contact_unset l) ns))"
  using assms
proof (induction ns arbitrary: v k)
  case Nil
  then show ?case by simp
next
  case (Cons x ns)
  obtain i n where x: "x = (i, n)" by (cases x)
  from Cons.prems have "\<forall>(i, n) \<in> set ns. Voter n \<and> i \<noteq> self_id l \<longrightarrow> flrs l i \<noteq> None"
    by simp
  note ih = Cons.IH [OF this]
  from Cons.prems x have f: "Voter n \<and> i \<noteq> self_id l \<longrightarrow> flrs l i \<noteq> None"
    by simp
  show ?case
    using f by (auto simp: x ih contact_unset_def split: option.splits)
qed

lemma count_voters_filter: "count_voters ns v = v + length (filter (Voter \<circ> snd) ns)"
  by (induction ns v rule: count_voters.induct) simp_all

lemma checkQuorum_eq:
  assumes "\<forall>(i, n) \<in> set (Nodes (Latest (configs l))).
      Voter n \<and> i \<noteq> self_id l \<longrightarrow> flrs l i \<noteq> None"
  shows "checkQuorum w l =
     Inr (if unset_voters l \<ge> quorum (Latest (configs l)) then l\<lparr>timer_active := False\<rparr>
          else if w = 0 then l\<lparr>state := Follower, leader := noID\<rparr>
          else l\<lparr>timer_active := True\<rparr>)"
proof -
  have c: "count_quorum l (Nodes (Latest (configs l))) 0 0
      = Inr (numVoters (Latest (configs l)), unset_voters l)"
    using count_quorum_eq [OF assms, of 0 0]
    by (simp add: numVoters_def count_voters_filter unset_voters_def)
  have s: "(if timer_active l then timer_stop l else l) = l\<lparr>timer_active := False\<rparr>"
    by (simp add: timer_stop_def)
  have r: "(if \<not> timer_active l then timer_reset w l else l) = l\<lparr>timer_active := True\<rparr>"
    by (simp add: timer_reset_def timer_stop_def)
  show ?thesis
    unfolding checkQuorum_def c
    by (simp add: quorum_def s setLeader_def setState_def timer_reset_def timer_stop_def)
qed

lemma leader_of_3_has_repls:
  "\<forall>m \<in> set (members leader_of_3).
     addr m \<noteq> ls_addr leader_of_3 \<longrightarrow> repls leader_of_3 (addr m) \<noteq> None"
  by (simp add: leader_of_3_def)

text \<open>
  Claim C4, as stated, at a timer expiry of ldr.go. Five voters, A leading with a wait of
  1 s: D and E were lost long ago; C is lost at 9 s, which arms the timer; B is lost at
  9.4 s; C answers at 9.5 s and is lost again at 9.7 s (at no time in between are three
  voters reached, so the timer runs on). At 10 s the timer expires: B and C failed less
  than the wait ago, so the count of the claim is 3, a quorum of 5, and the claim keeps
  the role; \<^verbatim>\<open>checkQuorum\<close> counts A only and steps down.
\<close>

theorem lease_count_counterexample:
  "state ldr_5 = Leader
   \<and> quorum (Latest (configs ldr_5)) = 3
   \<and> spec_reachable_voters 10000000000 (quorumWait ldr_5) ldr_5 = 3
   \<and> unset_voters ldr_5 = 1
   \<and> onTimeout ldr_5 = Inr (ldr_5\<lparr>state := Follower, leader := noID\<rparr>)"
  by (simp add: ldr_5_def ldr_A_def config_5_def quorum_def numVoters_def
      spec_reachable_voters_def contact_within_def unset_voters_def contact_unset_def
      flr_lost_def onTimeout_def checkQuorum_def setLeader_def setState_def)

text \<open>
  Claim C4, amended. In ldr.go, with a replication for every voter but the leader,
  \<^verbatim>\<open>checkQuorum\<close> counts the voters of \<open>Latest\<close> that are the leader itself or whose
  \<open>noContact\<close> is unset, against \<open>voters div 2 + 1\<close>. Below it the timer's expiry
  (\<^verbatim>\<open>onTimeout\<close>, a wait of 0) makes the node a follower with no leader and changes nothing
  else, and a check with a wait arms the timer and leaves the role; from it on, every
  check stops the timer and leaves the role. In leader.go, with a lease timeout that is
  not negative and a replication for every member but the leader, the lease tick counts
  the leader itself and every peer whose \<open>noContact\<close> is unset or less than the lease
  timeout before now (every member votes); below \<open>members div 2 + 1\<close> the tick makes the
  node a follower with an empty \<open>leaderID\<close> and changes nothing else; otherwise it changes
  nothing.
\<close>

theorem quorum_check_steps_down:
  "((\<forall>(i, n) \<in> set (Nodes (Latest (configs l))).
        Voter n \<and> i \<noteq> self_id l \<longrightarrow> flrs l i \<noteq> None) \<longrightarrow>
      quorum (Latest (configs l)) = numVoters (Latest (configs l)) div 2 + 1
      \<and> (unset_voters l < quorum (Latest (configs l)) \<longrightarrow>
           onTimeout l = Inr (l\<lparr>state := Follower, leader := noID\<rparr>)
           \<and> (w \<noteq> 0 \<longrightarrow> checkQuorum w l = Inr (l\<lparr>timer_active := True\<rparr>)))
      \<and> (quorum (Latest (configs l)) \<le> unset_voters l \<longrightarrow>
           onTimeout l = Inr (l\<lparr>timer_active := False\<rparr>)
           \<and> checkQuorum w l = Inr (l\<lparr>timer_active := False\<rparr>)))
   \<and> (0 \<le> sint (leaseTimeout ldr)
       \<and> (\<forall>m \<in> set (members ldr). addr m \<noteq> ls_addr ldr \<longrightarrow> repls ldr (addr m) \<noteq> None) \<longrightarrow>
      isQuorumReachable ldr now = Inr (reachable_voters ldr now \<ge> quorumSize ldr)
      \<and> quorumSize ldr = length (members ldr) div 2 + 1
      \<and> lease_tick ldr now
          = Inr (if reachable_voters ldr now < quorumSize ldr
                 then ldr\<lparr>ls_state := Follower, leaderID := []\<rparr> else ldr))"
proof (intro conjI impI)
  assume a: "\<forall>(i, n) \<in> set (Nodes (Latest (configs l))).
        Voter n \<and> i \<noteq> self_id l \<longrightarrow> flrs l i \<noteq> None"
  note c = checkQuorum_eq [OF a]
  show "quorum (Latest (configs l)) = numVoters (Latest (configs l)) div 2 + 1"
    by (simp add: quorum_def)
  {
    assume b: "unset_voters l < quorum (Latest (configs l))"
    with c [of 0] show "onTimeout l = Inr (l\<lparr>state := Follower, leader := noID\<rparr>)"
      by (simp add: onTimeout_def)
    assume "w \<noteq> 0"
    with b c [of w] show "checkQuorum w l = Inr (l\<lparr>timer_active := True\<rparr>)"
      by simp
  }
  {
    assume b: "quorum (Latest (configs l)) \<le> unset_voters l"
    with c [of 0] show "onTimeout l = Inr (l\<lparr>timer_active := False\<rparr>)"
      by (simp add: onTimeout_def)
    from b c [of w] show "checkQuorum w l = Inr (l\<lparr>timer_active := False\<rparr>)"
      by simp
  }
next
  assume "0 \<le> sint (leaseTimeout ldr)
       \<and> (\<forall>m \<in> set (members ldr). addr m \<noteq> ls_addr ldr \<longrightarrow> repls ldr (addr m) \<noteq> None)"
  then have l: "0 \<le> sint (leaseTimeout ldr)"
    and m: "\<forall>m \<in> set (members ldr). addr m \<noteq> ls_addr ldr \<longrightarrow> repls ldr (addr m) \<noteq> None"
    by simp_all
  have "count_reachable ldr now (members ldr) 0 = Inr (reachable_voters ldr now)"
    using count_reachable_eq [OF l m, of now 0] by (simp add: reachable_voters_def)
  then show 1: "isQuorumReachable ldr now
      = Inr (reachable_voters ldr now \<ge> quorumSize ldr)"
    by (simp add: isQuorumReachable_def)
  then show "lease_tick ldr now
        = Inr (if reachable_voters ldr now < quorumSize ldr
               then ldr\<lparr>ls_state := Follower, leaderID := []\<rparr> else ldr)"
    by (auto simp: lease_tick_def)
  show "quorumSize ldr = length (members ldr) div 2 + 1"
    by (simp add: quorumSize_def)
qed

lemma ldr_5_has_flrs:
  "\<forall>(i, n) \<in> set (Nodes (Latest (configs ldr_5))).
        Voter n \<and> i \<noteq> self_id ldr_5 \<longrightarrow> flrs ldr_5 i \<noteq> None"
  by (simp add: ldr_5_def ldr_A_def config_5_def)

lemma ldr_A_has_flrs:
  "\<forall>(i, n) \<in> set (Nodes (Latest (configs ldr_A))).
        Voter n \<and> i \<noteq> self_id ldr_A \<longrightarrow> flrs ldr_A i \<noteq> None"
  by (simp add: ldr_A_def config_ABCD_def)

theorem quorum_check_steps_down_witness:
  "flrs ldr_5 ''B'' \<noteq> None \<and> flrs ldr_5 ''C'' \<noteq> None
   \<and> flrs ldr_5 ''D'' \<noteq> None \<and> flrs ldr_5 ''E'' \<noteq> None
   \<and> quorum (Latest (configs ldr_5)) = 3 \<and> unset_voters ldr_5 = 1
   \<and> onTimeout ldr_5 = Inr (ldr_5\<lparr>state := Follower, leader := noID\<rparr>)
   \<and> checkQuorum 1000000000 ldr_5 = Inr (ldr_5\<lparr>timer_active := True\<rparr>)
   \<and> flrs ldr_A ''B'' \<noteq> None \<and> flrs ldr_A ''C'' \<noteq> None
   \<and> quorum (Latest (configs ldr_A)) = 2 \<and> unset_voters ldr_A = 3
   \<and> onTimeout ldr_A = Inr (ldr_A\<lparr>timer_active := False\<rparr>)
   \<and> checkQuorum 1000000000 ldr_A = Inr (ldr_A\<lparr>timer_active := False\<rparr>)
   \<and> 0 \<le> sint (leaseTimeout leader_of_3)
   \<and> repls leader_of_3 ''b:1'' \<noteq> None \<and> repls leader_of_3 ''c:1'' \<noteq> None
   \<and> quorumSize leader_of_3 = 2
   \<and> reachable_voters leader_of_3 10000000000 = 2
   \<and> lease_tick leader_of_3 10000000000 = Inr leader_of_3
   \<and> reachable_voters leader_of_3 11000000000 = 1
   \<and> lease_tick leader_of_3 11000000000
       = Inr (leader_of_3\<lparr>ls_state := Follower, leaderID := []\<rparr>)"
proof -
  have q5: "quorum (Latest (configs ldr_5)) = 3" and u5: "unset_voters ldr_5 = 1"
    by (simp_all add: ldr_5_def ldr_A_def config_5_def quorum_def numVoters_def
        unset_voters_def contact_unset_def flr_lost_def)
  have qA: "quorum (Latest (configs ldr_A)) = 2" and uA: "unset_voters ldr_A = 3"
    by (simp_all add: ldr_A_def config_ABCD_def quorum_def numVoters_def
        unset_voters_def contact_unset_def flr_at_def)
  have f: "flrs ldr_5 ''B'' \<noteq> None" "flrs ldr_5 ''C'' \<noteq> None"
    "flrs ldr_5 ''D'' \<noteq> None" "flrs ldr_5 ''E'' \<noteq> None"
    "flrs ldr_A ''B'' \<noteq> None" "flrs ldr_A ''C'' \<noteq> None"
    "repls leader_of_3 ''b:1'' \<noteq> None" "repls leader_of_3 ''c:1'' \<noteq> None"
    by (simp_all add: ldr_5_def ldr_A_def leader_of_3_def)
  have l: "0 \<le> sint (leaseTimeout leader_of_3)"
    by (simp add: leader_of_3_def)
  have q: "quorumSize leader_of_3 = 2"
    by (simp add: quorumSize_def leader_of_3_def)
  have a: "reachable_voters leader_of_3 10000000000 = 2"
    and b: "reachable_voters leader_of_3 11000000000 = 1"
    by (simp_all add: reachable_voters_def within_lease_def leader_of_3_def)
  note t5 = quorum_check_steps_down [of ldr_5 1000000000 leader_of_3 10000000000]
  note tA = quorum_check_steps_down [of ldr_A 1000000000 leader_of_3 11000000000]
  note n5 = t5 [THEN conjunct1, THEN mp, OF ldr_5_has_flrs]
  note nA = tA [THEN conjunct1, THEN mp, OF ldr_A_has_flrs]
  have lt: "unset_voters ldr_5 < quorum (Latest (configs ldr_5))"
    by (simp add: q5 u5)
  have ge: "quorum (Latest (configs ldr_A)) \<le> unset_voters ldr_A"
    by (simp add: qA uA)
  note d5 = n5 [THEN conjunct2, THEN conjunct1, THEN mp, OF lt]
  have 1: "onTimeout ldr_5 = Inr (ldr_5\<lparr>state := Follower, leader := noID\<rparr>)"
    by (rule d5 [THEN conjunct1])
  have 2: "checkQuorum 1000000000 ldr_5 = Inr (ldr_5\<lparr>timer_active := True\<rparr>)"
    by (rule d5 [THEN conjunct2, THEN mp]) simp
  note dA = nA [THEN conjunct2, THEN conjunct2, THEN mp, OF ge]
  note 3 = dA [THEN conjunct1]
  note 4 = dA [THEN conjunct2]
  note m3 = leader_of_3_has_repls
  note e1 = t5 [THEN conjunct2, THEN mp, OF conjI, OF l m3]
  note e2 = tA [THEN conjunct2, THEN mp, OF conjI, OF l m3]
  from e1 q a have 5: "lease_tick leader_of_3 10000000000 = Inr leader_of_3"
    by simp
  from e2 q b
  have 6: "lease_tick leader_of_3 11000000000
       = Inr (leader_of_3\<lparr>ls_state := Follower, leaderID := []\<rparr>)"
    by simp
  from f q5 u5 1 2 qA uA 3 4 l q a b 5 6 show ?thesis
    by (intro conjI)
qed

section \<open>The preconditions of a configuration change\<close>

text \<open>
  Claim C6. \<^verbatim>\<open>changeConfig\<close> replies \<^verbatim>\<open>ErrConfigChangeInProgress\<close> when
  \<open>Latest.Index \<noteq> Committed.Index\<close>; else \<^verbatim>\<open>ErrNotCommitReady\<close> when
  \<open>commitIndex < startIndex\<close>; it replies an error when the proposal has a voter that is
  not a voter of \<open>Latest\<close>, and when more than one voter of \<open>Latest\<close> is not a voter of the
  proposal: the error of that check when the checks before it pass (the proposal is for
  the current \<open>Latest\<close> and is valid), the error of an earlier check otherwise. The four
  errors differ. Whenever an error is replied the leader's state is what it was: nothing
  is stored and \<open>Latest\<close> is unchanged.
\<close>

theorem changeConfig_preconditions:
  "(\<not> IsCommitted (configs l) \<longrightarrow>
      changeConfig shp atoi t l = Some (Inr (Some ErrConfigChangeInProgress, l)))
   \<and> (IsCommitted (configs l) \<and> commitIndex l < startIndex l \<longrightarrow>
      changeConfig shp atoi t l = Some (Inr (Some ErrNotCommitReady, l)))
   \<and> (voters (newConf t) - voters (Latest (configs l)) \<noteq> {} \<longrightarrow>
      (\<exists>err. changeConfig shp atoi t l = Some (Inr (Some err, l)))
      \<and> (IsCommitted (configs l) \<and> \<not> commitIndex l < startIndex l
          \<and> Index (newConf t) = Index (Latest (configs l))
          \<and> Config_validate shp atoi (newConf t) = None \<longrightarrow>
          changeConfig shp atoi t l = Some (Inr (Some (ErrorString
            ''raft.changeConfig: new voters found. please add them as nonvoters with promote flag''),
            l))))
   \<and> (card (voters (Latest (configs l)) - voters (newConf t)) > 1 \<longrightarrow>
      (\<exists>err. changeConfig shp atoi t l = Some (Inr (Some err, l)))
      \<and> (IsCommitted (configs l) \<and> \<not> commitIndex l < startIndex l
          \<and> Index (newConf t) = Index (Latest (configs l))
          \<and> Config_validate shp atoi (newConf t) = None
          \<and> voters (newConf t) - voters (Latest (configs l)) = {} \<longrightarrow>
          changeConfig shp atoi t l = Some (Inr (Some (ErrorString
            ''raft.changeConfig: only one voter can lose its voting right''), l))))
   \<and> (changeConfig shp atoi t l = Some (Inr (Some err, l')) \<longrightarrow>
        l' = l \<and> storage l' = storage l \<and> Latest (configs l') = Latest (configs l))
   \<and> ErrConfigChangeInProgress \<noteq> ErrNotCommitReady
   \<and> ErrorString
        ''raft.changeConfig: new voters found. please add them as nonvoters with promote flag''
      \<noteq> ErrorString ''raft.changeConfig: only one voter can lose its voting right''"
proof -
  have fin: "finite (voters c)" for c
    by (simp add: voters_def)
  have pos: "(card (voters (newConf t) - voters (Latest (configs l))) > 0)
      = (voters (newConf t) - voters (Latest (configs l)) \<noteq> {})"
    using fin [of "newConf t"] by (simp add: card_gt_0_iff)
  have 1: "\<not> IsCommitted (configs l) \<longrightarrow>
      changeConfig shp atoi t l = Some (Inr (Some ErrConfigChangeInProgress, l))"
    by (simp add: changeConfig_def)
  have 2: "IsCommitted (configs l) \<and> commitIndex l < startIndex l \<longrightarrow>
      changeConfig shp atoi t l = Some (Inr (Some ErrNotCommitReady, l))"
    by (simp add: changeConfig_def)
  have 3: "voters (newConf t) - voters (Latest (configs l)) \<noteq> {} \<longrightarrow>
      (\<exists>err. changeConfig shp atoi t l = Some (Inr (Some err, l)))"
    using pos by (auto simp: changeConfig_def Let_def split: option.splits)
  have n3: "voters (newConf t) - voters (Latest (configs l)) \<noteq> {} \<longrightarrow>
      (IsCommitted (configs l) \<and> \<not> commitIndex l < startIndex l
          \<and> Index (newConf t) = Index (Latest (configs l))
          \<and> Config_validate shp atoi (newConf t) = None \<longrightarrow>
          changeConfig shp atoi t l = Some (Inr (Some (ErrorString
            ''raft.changeConfig: new voters found. please add them as nonvoters with promote flag''),
            l)))"
    using pos by (auto simp: changeConfig_def Let_def)
  have 4: "card (voters (Latest (configs l)) - voters (newConf t)) > 1 \<longrightarrow>
      (\<exists>err. changeConfig shp atoi t l = Some (Inr (Some err, l)))"
    by (auto simp: changeConfig_def Let_def split: option.splits)
  have n4: "card (voters (Latest (configs l)) - voters (newConf t)) > 1 \<longrightarrow>
      (IsCommitted (configs l) \<and> \<not> commitIndex l < startIndex l
          \<and> Index (newConf t) = Index (Latest (configs l))
          \<and> Config_validate shp atoi (newConf t) = None
          \<and> voters (newConf t) - voters (Latest (configs l)) = {} \<longrightarrow>
          changeConfig shp atoi t l = Some (Inr (Some (ErrorString
            ''raft.changeConfig: only one voter can lose its voting right''), l)))"
    using pos by (auto simp: changeConfig_def Let_def)
  have 5: "changeConfig shp atoi t l = Some (Inr (Some err, l')) \<longrightarrow>
        l' = l \<and> storage l' = storage l \<and> Latest (configs l') = Latest (configs l)"
    by (auto simp: changeConfig_def Let_def split: option.splits if_splits sum.splits)
  from 1 2 3 n3 4 n4 5 show ?thesis
    by simp
qed
lemma voters_examples:
  "voters config_ABCD = {''A'', ''B'', ''C''}" "voters config_4 = {''A'', ''B'', ''C'', ''D''}"
  "voters config_AB = {''A'', ''B''}"
  by (auto simp: voters_def config_ABCD_def config_4_def config_AB_def)

lemma validate_examples:
  "Config_validate shp_1 atoi_1 config_4 = None"
  "Config_validate shp_1 atoi_1 config_AB = None"
  by (simp_all add: Config_validate_def Node_validate_def shp_1_def atoi_1_def numVoters_def
      config_4_def config_AB_def)

theorem changeConfig_preconditions_witness:
  "changeConfig shp_1 atoi_1 \<lparr>newConf = config_4, cc_task = None\<rparr>
      (ldr_A\<lparr>configs := \<lparr>Committed = config_ABCD, Latest = config_ABCD\<lparr>Index := 6\<rparr>\<rparr>\<rparr>)
     = Some (Inr (Some ErrConfigChangeInProgress,
         ldr_A\<lparr>configs := \<lparr>Committed = config_ABCD, Latest = config_ABCD\<lparr>Index := 6\<rparr>\<rparr>\<rparr>))
   \<and> changeConfig shp_1 atoi_1 \<lparr>newConf = config_4, cc_task = None\<rparr> ldr_A
     = Some (Inr (Some ErrNotCommitReady, ldr_A))
   \<and> voters config_4 - voters (Latest (configs (ldr_A\<lparr>commitIndex := 5, lastApplied := 5\<rparr>)))
     = {''D''}
   \<and> changeConfig shp_1 atoi_1 \<lparr>newConf = config_4, cc_task = None\<rparr>
      (ldr_A\<lparr>commitIndex := 5, lastApplied := 5\<rparr>)
     = Some (Inr (Some (ErrorString
         ''raft.changeConfig: new voters found. please add them as nonvoters with promote flag''),
         ldr_A\<lparr>commitIndex := 5, lastApplied := 5\<rparr>))
   \<and> card (voters config_4 - voters config_AB) = 2
   \<and> changeConfig shp_1 atoi_1 \<lparr>newConf = config_AB, cc_task = None\<rparr>
      (ldr_A\<lparr>commitIndex := 5, lastApplied := 5,
         configs := \<lparr>Committed = config_4, Latest = config_4\<rparr>\<rparr>)
     = Some (Inr (Some (ErrorString
         ''raft.changeConfig: only one voter can lose its voting right''),
         ldr_A\<lparr>commitIndex := 5, lastApplied := 5,
           configs := \<lparr>Committed = config_4, Latest = config_4\<rparr>\<rparr>))"
proof -
  let ?t4 = "\<lparr>newConf = config_4, cc_task = None\<rparr>"
  let ?tAB = "\<lparr>newConf = config_AB, cc_task = None\<rparr>"
  let ?l1 = "ldr_A\<lparr>configs := \<lparr>Committed = config_ABCD, Latest = config_ABCD\<lparr>Index := 6\<rparr>\<rparr>\<rparr>"
  let ?l3 = "ldr_A\<lparr>commitIndex := 5, lastApplied := 5\<rparr>"
  let ?l4 = "ldr_A\<lparr>commitIndex := 5, lastApplied := 5,
         configs := \<lparr>Committed = config_4, Latest = config_4\<rparr>\<rparr>"
  have c1: "\<not> IsCommitted (configs ?l1)"
    by (simp add: IsCommitted_def config_ABCD_def)
  have c2: "IsCommitted (configs ldr_A) \<and> commitIndex ldr_A < startIndex ldr_A"
    by (simp add: IsCommitted_def ldr_A_def)
  have c3: "IsCommitted (configs ?l3) \<and> \<not> commitIndex ?l3 < startIndex ?l3
      \<and> Index (newConf ?t4) = Index (Latest (configs ?l3))"
    by (simp add: IsCommitted_def ldr_A_def config_ABCD_def config_4_def)
  have c4: "IsCommitted (configs ?l4) \<and> \<not> commitIndex ?l4 < startIndex ?l4
      \<and> Index (newConf ?tAB) = Index (Latest (configs ?l4))"
    by (simp add: IsCommitted_def ldr_A_def config_AB_def config_4_def)
  have d3: "voters config_4 - voters (Latest (configs ?l3)) = {''D''}"
    by (auto simp: voters_examples ldr_A_def)
  have d4: "voters config_4 - voters config_AB = {''C'', ''D''}"
    and e4: "voters config_AB - voters config_4 = {}"
    by (auto simp: voters_examples)
  then have k4: "card (voters config_4 - voters config_AB) = 2"
    by simp
  have r1: "changeConfig shp_1 atoi_1 ?t4 ?l1 = Some (Inr (Some ErrConfigChangeInProgress, ?l1))"
    by (rule changeConfig_preconditions [of ?l1 shp_1 atoi_1 ?t4, THEN conjunct1, THEN mp,
          OF c1])
  have r2: "changeConfig shp_1 atoi_1 ?t4 ldr_A = Some (Inr (Some ErrNotCommitReady, ldr_A))"
    by (rule changeConfig_preconditions [of ldr_A shp_1 atoi_1 ?t4, THEN conjunct2,
          THEN conjunct1, THEN mp, OF c2])
  have r3: "changeConfig shp_1 atoi_1 ?t4 ?l3 = Some (Inr (Some (ErrorString
         ''raft.changeConfig: new voters found. please add them as nonvoters with promote flag''),
         ?l3))"
  proof -
    have h: "voters (newConf ?t4) - voters (Latest (configs ?l3)) \<noteq> {}"
      using d3 by simp
    have v: "IsCommitted (configs ?l3) \<and> \<not> commitIndex ?l3 < startIndex ?l3
        \<and> Index (newConf ?t4) = Index (Latest (configs ?l3))
        \<and> Config_validate shp_1 atoi_1 (newConf ?t4) = None"
      using c3 validate_examples(1) by simp
    show ?thesis
      by (rule changeConfig_preconditions [of ?l3 shp_1 atoi_1 ?t4, THEN conjunct2,
            THEN conjunct2, THEN conjunct1, THEN mp, OF h, THEN conjunct2, THEN mp, OF v])
  qed
  have r4: "changeConfig shp_1 atoi_1 ?tAB ?l4 = Some (Inr (Some (ErrorString
         ''raft.changeConfig: only one voter can lose its voting right''), ?l4))"
  proof -
    have h: "card (voters (Latest (configs ?l4)) - voters (newConf ?tAB)) > 1"
      using k4 by simp
    have v: "IsCommitted (configs ?l4) \<and> \<not> commitIndex ?l4 < startIndex ?l4
        \<and> Index (newConf ?tAB) = Index (Latest (configs ?l4))
        \<and> Config_validate shp_1 atoi_1 (newConf ?tAB) = None
        \<and> voters (newConf ?tAB) - voters (Latest (configs ?l4)) = {}"
      using c4 e4 validate_examples(2) by simp
    show ?thesis
      by (rule changeConfig_preconditions [of ?l4 shp_1 atoi_1 ?tAB, THEN conjunct2,
            THEN conjunct2, THEN conjunct2, THEN conjunct1, THEN mp, OF h, THEN conjunct2,
            THEN mp, OF v])
  qed
  from r1 r2 d3 r3 k4 r4 show ?thesis
    by (intro conjI)
qed
section \<open>The apply loops of fsm.go and ldr.go\<close>















































end
